theory Spec2Isabelle
  imports Complex_Main
begin

section \<open>Tensors\<close>

text \<open>
  A tensor is a contiguous row-major array: its element type tag, its shape and its flat
  data. A tensor of shape \<open>[]\<close> is a scalar with one element. The record is polymorphic
  in the element: a \<open>tensor\<close> holds real numbers, that is finite values only, and is
  used for the straight-through primitives and for the formulas of the specification;
  an \<open>ftensor\<close> (below) holds floating-point values, which may be infinite or NaN.
\<close>

datatype dtype = float16 | bfloat16 | float32 | float64

datatype error =
  RuntimeError | IndexError | EinopsError | ZeroDivisionError | AssertionError
  | ValueError | TypeError

record 'a tensor_of =
  dtype :: dtype
  shape :: "nat list"
  data :: "'a list"

type_synonym tensor = "real tensor_of"

definition well_formed :: "'a tensor_of \<Rightarrow> bool" where
  "well_formed t \<longleftrightarrow> length (data t) = prod_list (shape t)"

text \<open>The size of dimension \<open>-1\<close>; a scalar is reduced as one row of one element.\<close>

definition last_dim :: "nat list \<Rightarrow> nat" where
  "last_dim sh = (if sh = [] then 1 else last sh)"

text \<open>Row \<open>r\<close> of the tensor seen as a matrix of rows of length \<open>last_dim\<close>.\<close>

definition row :: "'a tensor_of \<Rightarrow> nat \<Rightarrow> 'a list" where
  "row t r = take (last_dim (shape t)) (drop (r * last_dim (shape t)) (data t))"

definition num_rows :: "'a tensor_of \<Rightarrow> nat" where
  "num_rows t = length (data t) div last_dim (shape t)"

text \<open>\<open>torch.finfo(dtype).eps\<close>: the gap between 1.0 and the next representable number.\<close>

fun finfo_eps :: "dtype \<Rightarrow> real" where
  "finfo_eps float16 = 1 / 2 ^ 10"
| "finfo_eps bfloat16 = 1 / 2 ^ 7"
| "finfo_eps float32 = 1 / 2 ^ 23"
| "finfo_eps float64 = 1 / 2 ^ 52"

text \<open>\<open>torch.finfo(dtype).tiny\<close>: the smallest positive normal number.\<close>

fun finfo_tiny :: "dtype \<Rightarrow> real" where
  "finfo_tiny float16 = 1 / 2 ^ 14"
| "finfo_tiny bfloat16 = 1 / 2 ^ 126"
| "finfo_tiny float32 = 1 / 2 ^ 126"
| "finfo_tiny float64 = 1 / 2 ^ 1022"

text \<open>The smallest positive subnormal number of the format.\<close>

fun smallest_subnormal :: "dtype \<Rightarrow> real" where
  "smallest_subnormal float16 = 1 / 2 ^ 24"
| "smallest_subnormal bfloat16 = 1 / 2 ^ 133"
| "smallest_subnormal float32 = 1 / 2 ^ 149"
| "smallest_subnormal float64 = 1 / 2 ^ 1074"

text \<open>\<open>torch.finfo(dtype).max\<close>: the largest finite number.\<close>

fun finfo_max :: "dtype \<Rightarrow> real" where
  "finfo_max float16 = 65504"
| "finfo_max bfloat16 = (2 - 1 / 2 ^ 7) * 2 ^ 127"
| "finfo_max float32 = (2 - 1 / 2 ^ 23) * 2 ^ 127"
| "finfo_max float64 = (2 - 1 / 2 ^ 52) * 2 ^ 1023"

text \<open>
  The least magnitude that rounding to nearest turns into an infinity: \<open>max\<close> plus half
  the gap below it.
\<close>

fun overflow_threshold :: "dtype \<Rightarrow> real" where
  "overflow_threshold float16 = 65520"
| "overflow_threshold bfloat16 = (2 - 1 / 2 ^ 8) * 2 ^ 127"
| "overflow_threshold float32 = (2 - 1 / 2 ^ 24) * 2 ^ 127"
| "overflow_threshold float64 = (2 - 1 / 2 ^ 53) * 2 ^ 1023"

subsection \<open>Elementwise operations on finite values\<close>

definition t_map :: "('a \<Rightarrow> 'a) \<Rightarrow> 'a tensor_of \<Rightarrow> 'a tensor_of" where
  "t_map f t = t\<lparr>data := map f (data t)\<rparr>"

text \<open>\<open>torch.round\<close>: nearest integer, halves to the even neighbour.\<close>

definition torch_round :: "real \<Rightarrow> real" where
  "torch_round x =
     (let f = \<lfloor>x\<rfloor>; d = x - of_int f
      in if d < 1 / 2 then of_int f
         else if 1 / 2 < d then of_int (f + 1)
         else if even f then of_int f else of_int (f + 1))"

definition torch_sign :: "tensor \<Rightarrow> tensor" where
  "torch_sign = t_map sgn"

text \<open>\<open>clamp(lo, hi)\<close> of a number.\<close>

definition clamp :: "real \<Rightarrow> real \<Rightarrow> real \<Rightarrow> real" where
  "clamp lo hi v = min (max v lo) hi"

section \<open>Straight-through estimator primitives (bitLinear.py)\<close>

definition RoundSTE_forward :: "'ctx \<Rightarrow> tensor \<Rightarrow> tensor" where
  "RoundSTE_forward ctx x = t_map torch_round x"

definition RoundSTE_backward :: "'ctx \<Rightarrow> tensor \<Rightarrow> tensor" where
  "RoundSTE_backward ctx grad_output = grad_output"

definition SignSTE_forward :: "'ctx \<Rightarrow> tensor \<Rightarrow> tensor" where
  "SignSTE_forward ctx x = torch_sign x"

definition SignSTE_backward :: "'ctx \<Rightarrow> tensor \<Rightarrow> tensor" where
  "SignSTE_backward ctx grad_output = grad_output"

section \<open>Floating-point values\<close>

text \<open>
  An element of a tensor of the library is a finite number, an infinity or NaN. The
  result of an arithmetic operation on finite operands is its exact value when that lies
  below the overflow threshold of the dtype, and the infinity of its sign otherwise:
  rounding inside the finite range is not modelled, overflow is. Infinities and NaN
  follow IEEE 754; the sign of a zero is not modelled.
\<close>

datatype fval = Fin real | PInf | NInf | NaN

type_synonym ftensor = "fval tensor_of"

definition fl :: "dtype \<Rightarrow> real \<Rightarrow> fval" where
  "fl d r = (if overflow_threshold d \<le> r then PInf
             else if r \<le> - overflow_threshold d then NInf else Fin r)"

fun is_Fin :: "fval \<Rightarrow> bool" where
  "is_Fin (Fin r) = True"
| "is_Fin v = False"

fun real_of :: "fval \<Rightarrow> real" where
  "real_of (Fin r) = r"
| "real_of v = 0"

text \<open>A finite value of the dtype: a number of magnitude at most \<open>finfo.max\<close>.\<close>

fun finite_in :: "dtype \<Rightarrow> fval \<Rightarrow> bool" where
  "finite_in d (Fin r) = (\<bar>r\<bar> \<le> finfo_max d)"
| "finite_in d v = False"

definition finite_tensor :: "ftensor \<Rightarrow> bool" where
  "finite_tensor t = list_all (finite_in (dtype t)) (data t)"

text \<open>The tensor of the finite values of \<open>t\<close>, and a tensor of numbers as a float tensor.\<close>

definition reals :: "ftensor \<Rightarrow> tensor" where
  "reals t = \<lparr>dtype = dtype t, shape = shape t, data = map real_of (data t)\<rparr>"

definition of_reals :: "tensor \<Rightarrow> ftensor" where
  "of_reals t = \<lparr>dtype = dtype t, shape = shape t, data = map Fin (data t)\<rparr>"

fun sign_of :: "fval \<Rightarrow> real" where
  "sign_of (Fin r) = sgn r"
| "sign_of PInf = 1"
| "sign_of NInf = - 1"
| "sign_of NaN = 0"

definition inf_of_sign :: "real \<Rightarrow> fval" where
  "inf_of_sign s = (if 0 < s then PInf else if s < 0 then NInf else NaN)"

fun f_neg :: "fval \<Rightarrow> fval" where
  "f_neg (Fin r) = Fin (- r)"
| "f_neg PInf = NInf"
| "f_neg NInf = PInf"
| "f_neg NaN = NaN"

fun f_abs :: "fval \<Rightarrow> fval" where
  "f_abs (Fin r) = Fin \<bar>r\<bar>"
| "f_abs PInf = PInf"
| "f_abs NInf = PInf"
| "f_abs NaN = NaN"

text \<open>\<open>torch.round\<close> returns infinities and NaN unchanged.\<close>

fun f_round :: "fval \<Rightarrow> fval" where
  "f_round (Fin r) = Fin (torch_round r)"
| "f_round v = v"

text \<open>\<open>clamp(lo, hi)\<close> and \<open>clamp(min=lo)\<close> bound the infinities and keep NaN.\<close>

fun f_clamp :: "real \<Rightarrow> real \<Rightarrow> fval \<Rightarrow> fval" where
  "f_clamp lo hi (Fin r) = Fin (clamp lo hi r)"
| "f_clamp lo hi PInf = Fin hi"
| "f_clamp lo hi NInf = Fin lo"
| "f_clamp lo hi NaN = NaN"

fun f_clamp_min :: "real \<Rightarrow> fval \<Rightarrow> fval" where
  "f_clamp_min lo (Fin r) = Fin (max lo r)"
| "f_clamp_min lo PInf = PInf"
| "f_clamp_min lo NInf = Fin lo"
| "f_clamp_min lo NaN = NaN"

text \<open>The maximum of two values as \<open>torch.max\<close> takes it: NaN wins.\<close>

fun f_max :: "fval \<Rightarrow> fval \<Rightarrow> fval" where
  "f_max (Fin x) (Fin y) = Fin (max x y)"
| "f_max NaN b = NaN"
| "f_max a NaN = NaN"
| "f_max PInf b = PInf"
| "f_max a PInf = PInf"
| "f_max NInf b = b"
| "f_max a NInf = a"

fun f_Max :: "fval list \<Rightarrow> fval" where
  "f_Max [] = NaN"
| "f_Max [v] = v"
| "f_Max (v # w # vs) = f_max v (f_Max (w # vs))"

fun f_mul :: "dtype \<Rightarrow> fval \<Rightarrow> fval \<Rightarrow> fval" where
  "f_mul d (Fin x) (Fin y) = fl d (x * y)"
| "f_mul d NaN b = NaN"
| "f_mul d a NaN = NaN"
| "f_mul d a b = inf_of_sign (sign_of a * sign_of b)"

fun f_div :: "dtype \<Rightarrow> fval \<Rightarrow> fval \<Rightarrow> fval" where
  "f_div d (Fin x) (Fin y) = (if y = 0 then inf_of_sign (sgn x) else fl d (x / y))"
| "f_div d NaN b = NaN"
| "f_div d a NaN = NaN"
| "f_div d (Fin x) b = Fin 0"
| "f_div d a (Fin y) = inf_of_sign (sign_of a * (if y < 0 then - 1 else 1))"
| "f_div d a b = NaN"

fun f_add :: "dtype \<Rightarrow> fval \<Rightarrow> fval \<Rightarrow> fval" where
  "f_add d (Fin x) (Fin y) = fl d (x + y)"
| "f_add d NaN b = NaN"
| "f_add d a NaN = NaN"
| "f_add d PInf NInf = NaN"
| "f_add d NInf PInf = NaN"
| "f_add d PInf b = PInf"
| "f_add d a PInf = PInf"
| "f_add d NInf b = NInf"
| "f_add d a NInf = NInf"

definition f_sub :: "dtype \<Rightarrow> fval \<Rightarrow> fval \<Rightarrow> fval" where
  "f_sub d a b = f_add d a (f_neg b)"

text \<open>
  The mean of a list as one operation of the library: on finite values the exact mean,
  checked for overflow once (the library accumulates in a wider format); an empty list
  gives NaN.
\<close>

definition f_mean :: "dtype \<Rightarrow> fval list \<Rightarrow> fval" where
  "f_mean d vs =
     (if list_all is_Fin vs
      then (if vs = [] then NaN else fl d (sum_list (map real_of vs) / real (length vs)))
      else if NaN \<in> set vs \<or> (PInf \<in> set vs \<and> NInf \<in> set vs) then NaN
      else if PInf \<in> set vs then PInf else NInf)"

subsection \<open>Elementwise operations of the library\<close>

definition torch_abs :: "ftensor \<Rightarrow> ftensor" where
  "torch_abs = t_map f_abs"

text \<open>\<open>t.clamp(lo, hi)\<close> and \<open>t.clamp(min=lo)\<close>.\<close>

definition torch_clamp :: "real \<Rightarrow> real \<Rightarrow> ftensor \<Rightarrow> ftensor" where
  "torch_clamp lo hi = t_map (f_clamp lo hi)"

definition torch_clamp_min :: "real \<Rightarrow> ftensor \<Rightarrow> ftensor" where
  "torch_clamp_min lo = t_map (f_clamp_min lo)"

text \<open>
  \<open>t.max(dim=-1, keepdim=True).values\<close>. The library raises an IndexError when the
  reduced dimension has size 0.
\<close>

definition max_lastdim_keepdim :: "ftensor \<Rightarrow> error + ftensor" where
  "max_lastdim_keepdim t =
     (if last_dim (shape t) = 0 then Inl IndexError
      else Inr \<lparr>dtype = dtype t,
                shape = (if shape t = [] then [] else butlast (shape t) @ [1]),
                data = map (\<lambda>r. f_Max (row t r)) [0..<num_rows t]\<rparr>)"

text \<open>\<open>c / t\<close> for a Python float \<open>c\<close>.\<close>

definition scalar_rdiv :: "real \<Rightarrow> ftensor \<Rightarrow> ftensor" where
  "scalar_rdiv c t = t_map (f_div (dtype t) (Fin c)) t"

text \<open>
  \<open>x * s\<close> and \<open>x / s\<close> where \<open>s\<close> comes from a \<open>keepdim\<close> reduction of the
  last dimension of a tensor shaped like \<open>x\<close>: element \<open>i\<close> of \<open>x\<close> meets the
  element of \<open>s\<close> of its row.
\<close>

definition mul_rowwise :: "ftensor \<Rightarrow> ftensor \<Rightarrow> ftensor" where
  "mul_rowwise x s =
     x\<lparr>data := map (\<lambda>i. f_mul (dtype x) (data x ! i) (data s ! (i div last_dim (shape x))))
                  [0..<length (data x)]\<rparr>"

definition div_rowwise :: "ftensor \<Rightarrow> ftensor \<Rightarrow> ftensor" where
  "div_rowwise x s =
     x\<lparr>data := map (\<lambda>i. f_div (dtype x) (data x ! i) (data s ! (i div last_dim (shape x))))
                  [0..<length (data x)]\<rparr>"

text \<open>
  \<open>Function.apply\<close> runs \<open>forward\<close>: \<open>RoundSTE_forward\<close> on the finite elements,
  while \<open>torch.round\<close> returns an infinity or NaN unchanged.
\<close>

definition RoundSTE_apply :: "ftensor \<Rightarrow> ftensor" where
  "RoundSTE_apply x = t_map f_round x"

section \<open>Quantization functions (bitLinear.py)\<close>

definition activation_scale :: "ftensor \<Rightarrow> error + ftensor" where
  "activation_scale x =
     (case max_lastdim_keepdim (torch_abs x) of
        Inl e \<Rightarrow> Inl e
      | Inr m \<Rightarrow> Inr (scalar_rdiv 127 (torch_clamp_min (finfo_eps (dtype x)) m)))"

definition activation_quant :: "ftensor \<Rightarrow> error + ftensor" where
  "activation_quant x =
     (case activation_scale x of
        Inl e \<Rightarrow> Inl e
      | Inr scale \<Rightarrow>
          (let x_scaled = mul_rowwise x scale;
               x_quant = div_rowwise (torch_clamp (- 128) 127 (RoundSTE_apply x_scaled)) scale
           in Inr x_quant))"

text \<open>\<open>w.abs().mean()\<close> is a scalar; on a tensor without elements it is NaN.\<close>

definition abs_mean :: "ftensor \<Rightarrow> fval" where
  "abs_mean w = f_mean (dtype w) (data (torch_abs w))"

definition weight_quant :: "ftensor \<Rightarrow> ftensor" where
  "weight_quant w =
     (let scale = f_div (dtype w) (Fin 1) (f_clamp_min (1 / 100000) (abs_mean w));
          w_scaled = t_map (\<lambda>v. f_mul (dtype w) v scale) w;
          w_quant = t_map (\<lambda>v. f_div (dtype w) v scale) (torch_clamp (- 1) 1 (RoundSTE_apply w_scaled))
      in w_quant)"

subsection \<open>The quantization formulas as the specification words them\<close>

text \<open>
  Per-token activation quantization with divisor guard \<open>\<epsilon>\<close>: for each row,
  \<open>scale = 127 / max(|row|, \<epsilon>)\<close>; scale the row, round, clamp to \<open>[-128, 127]\<close>,
  divide by the scale.
\<close>

definition row_scale :: "real \<Rightarrow> real list \<Rightarrow> real" where
  "row_scale \<epsilon> r = 127 / max (Max (set (map abs r))) \<epsilon>"

definition quantize_row :: "real \<Rightarrow> real list \<Rightarrow> real list" where
  "quantize_row \<epsilon> r =
     (let scale = row_scale \<epsilon> r
      in map (\<lambda>v. clamp (- 128) 127 (torch_round (v * scale)) / scale) r)"

definition activation_quant_spec :: "real \<Rightarrow> tensor \<Rightarrow> tensor" where
  "activation_quant_spec \<epsilon> x =
     x\<lparr>data := concat (map (\<lambda>r. quantize_row \<epsilon> (row x r)) [0..<num_rows x])\<rparr>"

text \<open>
  Per-tensor weight quantization: \<open>scale = 1 / max(mean(|w|), 1e-5)\<close> over the whole
  tensor; scale, round, clamp to \<open>[-1, 1]\<close>, divide by the scale.
\<close>

definition weight_scale_spec :: "tensor \<Rightarrow> real" where
  "weight_scale_spec w =
     1 / max ((\<Sum>v\<leftarrow>data w. \<bar>v\<bar>) / real (length (data w))) (1 / 100000)"

definition weight_quant_spec :: "tensor \<Rightarrow> tensor" where
  "weight_quant_spec w =
     w\<lparr>data := map (\<lambda>v. clamp (- 1) 1 (torch_round (v * weight_scale_spec w))
                            / weight_scale_spec w) (data w)\<rparr>"

section \<open>Library layers used by the quantized linear unit\<close>

text \<open>
  \<open>nn.LayerNorm(normalized_shape, eps=1e-5, elementwise_affine=True)\<close> over the last
  dimension. With \<open>elementwise_affine\<close> the module owns a weight (initially ones) and a
  bias (initially zeros), both learnable.
\<close>

record LayerNorm =
  normalized_shape :: nat
  ln_eps :: real
  elementwise_affine :: bool
  ln_weight :: "ftensor option"
  ln_bias :: "ftensor option"

definition LayerNorm_init :: "nat \<Rightarrow> bool \<Rightarrow> LayerNorm" where
  "LayerNorm_init n affine =
     \<lparr>normalized_shape = n, ln_eps = 1 / 100000, elementwise_affine = affine,
      ln_weight = (if affine then Some \<lparr>dtype = float32, shape = [n], data = replicate n (Fin 1)\<rparr>
                   else None),
      ln_bias = (if affine then Some \<lparr>dtype = float32, shape = [n], data = replicate n (Fin 0)\<rparr>
                 else None)\<rparr>"

definition mean :: "real list \<Rightarrow> real" where
  "mean r = sum_list r / real (length r)"

text \<open>The biased variance that layer normalization uses.\<close>

definition variance :: "real list \<Rightarrow> real" where
  "variance r = (\<Sum>v\<leftarrow>r. (v - mean r) ^ 2) / real (length r)"

text \<open>
  The normalized value of element \<open>v\<close> of row \<open>r\<close>, as one operation of the library:
  exact on a row of finite values, NaN on a row that holds an infinity or NaN (the mean
  of such a row is not finite).
\<close>

definition normalize :: "dtype \<Rightarrow> real \<Rightarrow> fval list \<Rightarrow> fval \<Rightarrow> fval" where
  "normalize d e r v =
     (if list_all is_Fin r
      then fl d ((real_of v - mean (map real_of r)) / sqrt (variance (map real_of r) + e))
      else NaN)"

text \<open>
  \<open>F.layer_norm\<close>: the library raises a RuntimeError unless the last dimension of the
  input is the normalized shape, and when the affine parameters have another dtype than
  the input (the mixed-precision paths of some backends are not modelled).
\<close>

definition LayerNorm_forward :: "LayerNorm \<Rightarrow> ftensor \<Rightarrow> error + ftensor" where
  "LayerNorm_forward self x =
     (if shape x \<noteq> [] \<and> last (shape x) = normalized_shape self
         \<and> (case ln_weight self of None \<Rightarrow> True | Some w \<Rightarrow> dtype w = dtype x)
         \<and> (case ln_bias self of None \<Rightarrow> True | Some b \<Rightarrow> dtype b = dtype x)
      then Inr (x\<lparr>data :=
             map (\<lambda>i. let r = row x (i div normalized_shape self);
                           y = normalize (dtype x) (ln_eps self) r (data x ! i)
                       in (case ln_weight self of
                             None \<Rightarrow> y
                           | Some w \<Rightarrow>
                               (let yw = f_mul (dtype x) y (data w ! (i mod normalized_shape self))
                                in (case ln_bias self of
                                      None \<Rightarrow> yw
                                    | Some b \<Rightarrow>
                                        f_add (dtype x) yw
                                          (data b ! (i mod normalized_shape self))))))
                 [0..<length (data x)]\<rparr>)
      else Inl RuntimeError)"

text \<open>
  The inner product of two rows as one operation of the library: on finite values the
  exact sum of products, checked for overflow once; otherwise the IEEE sum of the
  products.
\<close>

definition f_sum :: "dtype \<Rightarrow> fval list \<Rightarrow> fval" where
  "f_sum d vs =
     (if list_all is_Fin vs then fl d (sum_list (map real_of vs))
      else if NaN \<in> set vs \<or> (PInf \<in> set vs \<and> NInf \<in> set vs) then NaN
      else if PInf \<in> set vs then PInf else NInf)"

definition f_dot :: "dtype \<Rightarrow> fval list \<Rightarrow> fval list \<Rightarrow> fval" where
  "f_dot d xs ys =
     (if list_all is_Fin xs \<and> list_all is_Fin ys
      then fl d (\<Sum>(x, y)\<leftarrow>zip xs ys. real_of x * real_of y)
      else f_sum d (map2 (f_mul d) xs ys))"

text \<open>
  \<open>F.linear(input, weight, bias)\<close> for a two-dimensional weight \<open>[out, in]\<close>: every
  row of the input is multiplied with the transposed weight and the bias is added;
  the library raises a RuntimeError when the last dimension of the input is not \<open>in\<close>
  and when input, weight and bias do not have one dtype.
\<close>

definition F_linear :: "ftensor \<Rightarrow> ftensor \<Rightarrow> ftensor option \<Rightarrow> error + ftensor" where
  "F_linear input w b =
     (case shape w of
        [out, inn] \<Rightarrow>
          if shape input \<noteq> [] \<and> last (shape input) = inn \<and> dtype input = dtype w
             \<and> (case b of None \<Rightarrow> True | Some bt \<Rightarrow> shape bt = [out] \<and> dtype bt = dtype w)
          then Inr \<lparr>dtype = dtype input,
                    shape = butlast (shape input) @ [out],
                    data = map (\<lambda>k. let p = f_dot (dtype input) (row input (k div out))
                                                (row w (k mod out))
                                     in (case b of
                                           None \<Rightarrow> p
                                         | Some bt \<Rightarrow> f_add (dtype input) p (data bt ! (k mod out))))
                             [0..<prod_list (butlast (shape input)) * out]\<rparr>
          else Inl RuntimeError
      | _ \<Rightarrow> Inl RuntimeError)"

text \<open>
  Elementwise \<open>a + b\<close> and \<open>a - b\<close> of two tensors of the same shape, and
  \<open>t.detach()\<close>, which leaves the value alone.
\<close>

definition tensor_add :: "ftensor \<Rightarrow> ftensor \<Rightarrow> ftensor" where
  "tensor_add a b = a\<lparr>data := map2 (f_add (dtype a)) (data a) (data b)\<rparr>"

definition tensor_sub :: "ftensor \<Rightarrow> ftensor \<Rightarrow> ftensor" where
  "tensor_sub a b = a\<lparr>data := map2 (f_sub (dtype a)) (data a) (data b)\<rparr>"

definition detach :: "ftensor \<Rightarrow> ftensor" where
  "detach t = t"

section \<open>BitLinear (bitLinear.py)\<close>

text \<open>
  The values that the library's random initializers give the parameters are an input of
  the constructors: \<open>pv name i\<close> is element \<open>i\<close> of the parameter called \<open>name\<close>, a
  finite number. Parameters are created in single precision.
\<close>

type_synonym param_values = "string \<Rightarrow> nat \<Rightarrow> real"

definition new_parameter :: "param_values \<Rightarrow> string \<Rightarrow> nat list \<Rightarrow> ftensor" where
  "new_parameter pv name sh =
     \<lparr>dtype = float32, shape = sh, data = map (\<lambda>i. Fin (pv name i)) [0..<prod_list sh]\<rparr>"

record BitLinear =
  in_features :: nat
  out_features :: nat
  weight :: ftensor
  bias :: "ftensor option"
  rms_norm :: LayerNorm

definition BitLinear_init :: "param_values \<Rightarrow> string \<Rightarrow> nat \<Rightarrow> nat \<Rightarrow> bool \<Rightarrow> BitLinear" where
  "BitLinear_init pv name inn out has_bias =
     \<lparr>in_features = inn, out_features = out,
      weight = new_parameter pv (name @ ''.weight'') [out, inn],
      bias = (if has_bias then Some (new_parameter pv (name @ ''.bias'') [out]) else None),
      rms_norm = LayerNorm_init inn False\<rparr>"

definition BitLinear_forward :: "BitLinear \<Rightarrow> ftensor \<Rightarrow> error + ftensor" where
  "BitLinear_forward self x =
     (case LayerNorm_forward (rms_norm self) x of
        Inl e \<Rightarrow> Inl e
      | Inr x_norm \<Rightarrow>
          (case activation_quant x_norm of
             Inl e \<Rightarrow> Inl e
           | Inr aq \<Rightarrow>
               (let x_quant = tensor_add x_norm (detach (tensor_sub aq x_norm));
                    w_quant = tensor_add (weight self)
                                (detach (tensor_sub (weight_quant (weight self)) (weight self)))
                in F_linear x_quant w_quant (bias self))))"

text \<open>
  The shapes and dtypes that the constructor establishes and that training and a cast
  of the whole module keep.
\<close>

definition BitLinear_ok :: "BitLinear \<Rightarrow> bool" where
  "BitLinear_ok self \<longleftrightarrow>
     shape (weight self) = [out_features self, in_features self]
     \<and> well_formed (weight self)
     \<and> (case bias self of
           None \<Rightarrow> True
         | Some b \<Rightarrow> shape b = [out_features self] \<and> well_formed b
                      \<and> dtype b = dtype (weight self))
     \<and> rms_norm self = LayerNorm_init (in_features self) False"


section \<open>Properties\<close>

subsection \<open>Rounding and clamping\<close>

lemma torch_round_cases:
  obtains k :: int where "torch_round x = of_int k" "\<bar>of_int k - x\<bar> \<le> 1 / 2"
proof -
  let ?f = "\<lfloor>x\<rfloor>"
  have f1: "of_int ?f \<le> x" and f2: "x < of_int ?f + 1" by linarith+
  show ?thesis
  proof (cases "x - of_int ?f < 1 / 2")
    case True
    then have "torch_round x = of_int ?f" by (simp add: torch_round_def Let_def)
    moreover have "\<bar>of_int ?f - x\<bar> \<le> 1 / 2" using True f1 by linarith
    ultimately show ?thesis using that by blast
  next
    case False
    note nlt = this
    show ?thesis
    proof (cases "1 / 2 < x - of_int ?f")
      case True
      then have "torch_round x = of_int (?f + 1)" using nlt by (simp add: torch_round_def Let_def)
      moreover have "\<bar>of_int (?f + 1) - x\<bar> \<le> 1 / 2" using True f2 by auto
      ultimately show ?thesis using that by blast
    next
      case False
      then have eq: "x - of_int ?f = 1 / 2" using nlt by linarith
      have "torch_round x = of_int ?f \<or> torch_round x = of_int (?f + 1)"
        using nlt False by (simp add: torch_round_def Let_def)
      moreover have "\<bar>of_int ?f - x\<bar> \<le> 1 / 2" using eq by linarith
      moreover have "\<bar>of_int (?f + 1) - x\<bar> \<le> 1 / 2" using eq by auto
      ultimately show ?thesis using that by blast
    qed
  qed
qed

lemma torch_round_Ints: "torch_round x \<in> \<int>"
  by (rule torch_round_cases [of x]) simp

lemma torch_round_near: "\<bar>torch_round x - x\<bar> \<le> 1 / 2"
  by (rule torch_round_cases [of x]) simp

lemma torch_round_nearest: "\<bar>torch_round x - x\<bar> \<le> \<bar>of_int k - x\<bar>"
proof (rule torch_round_cases [of x])
  fix j :: int
  assume r: "torch_round x = of_int j" and n: "\<bar>of_int j - x\<bar> \<le> 1 / 2"
  show ?thesis
  proof (cases "k = j")
    case True
    then show ?thesis using r by simp
  next
    case False
    then have "1 \<le> \<bar>k - j\<bar>" by linarith
    then have "(1::real) \<le> \<bar>of_int k - of_int j\<bar>"
      by (metis of_int_1 of_int_abs of_int_diff of_int_le_iff)
    then show ?thesis using r n by linarith
  qed
qed

lemma torch_round_of_int [simp]: "torch_round (of_int k) = of_int k"
  by (simp add: torch_round_def Let_def)

lemma torch_round_zero [simp]: "torch_round 0 = 0"
  using torch_round_of_int [of 0] by simp

lemma torch_round_le: "x \<le> of_int n \<Longrightarrow> torch_round x \<le> of_int n"
proof (rule torch_round_cases [of x])
  fix j :: int
  assume x: "x \<le> of_int n" and r: "torch_round x = of_int j" and n: "\<bar>of_int j - x\<bar> \<le> 1 / 2"
  have "real_of_int j < of_int n + 1" using x n by linarith
  then have "j < n + 1" by (metis of_int_1 of_int_add of_int_less_iff)
  then show ?thesis using r by simp
qed

lemma torch_round_ge: "of_int n \<le> x \<Longrightarrow> of_int n \<le> torch_round x"
proof (rule torch_round_cases [of x])
  fix j :: int
  assume x: "of_int n \<le> x" and r: "torch_round x = of_int j" and n: "\<bar>of_int j - x\<bar> \<le> 1 / 2"
  have "real_of_int n - 1 < of_int j" using x n by linarith
  then have "n - 1 < j" by (metis of_int_1 of_int_diff of_int_less_iff)
  then show ?thesis using r by simp
qed

lemma clamp_ternary: "clamp (- 1) 1 (of_int k) \<in> {- 1, 0, 1}"
proof -
  consider "k \<le> - 1" | "k = 0" | "1 \<le> k" by linarith
  then show ?thesis
  proof cases
    case 1
    then have "real_of_int k \<le> - 1" by (metis of_int_1 of_int_le_iff of_int_minus)
    then show ?thesis by (simp add: clamp_def)
  next
    case 2
    then show ?thesis by (simp add: clamp_def)
  next
    case 3
    then have "1 \<le> real_of_int k" by simp
    then show ?thesis by (simp add: clamp_def)
  qed
qed

lemma clamp_int8: "\<exists>j\<in>{- 128..127}. clamp (- 128) 127 (of_int k) = of_int j"
proof -
  consider "k \<le> - 128" | "- 128 \<le> k \<and> k \<le> 127" | "127 \<le> k" by linarith
  then show ?thesis
  proof cases
    case 1
    then have "real_of_int k \<le> - 128" by (metis of_int_le_iff of_int_minus of_int_numeral)
    then have "clamp (- 128) 127 (of_int k) = of_int (- 128)" by (simp add: clamp_def)
    then show ?thesis by (intro bexI [of _ "- 128"]) auto
  next
    case 2
    then have "- 128 \<le> real_of_int k" "real_of_int k \<le> 127"
      by (metis of_int_le_iff of_int_minus of_int_numeral, metis of_int_le_iff of_int_numeral)
    then have "clamp (- 128) 127 (of_int k) = of_int k" by (simp add: clamp_def)
    then show ?thesis using 2 by (intro bexI [of _ k]) auto
  next
    case 3
    then have "127 \<le> real_of_int k" by (metis of_int_le_iff of_int_numeral)
    then have "clamp (- 128) 127 (of_int k) = of_int 127" by (simp add: clamp_def)
    then show ?thesis by (intro bexI [of _ 127]) auto
  qed
qed

lemma t_map_simps [simp]:
  "shape (t_map f t) = shape t" "dtype (t_map f t) = dtype t"
  "data (t_map f t) = map f (data t)"
  by (simp_all add: t_map_def)

lemma prod_list_last_dim: "prod_list sh = prod_list (butlast sh) * last_dim sh"
proof (cases "sh = []")
  case True
  then show ?thesis by (simp add: last_dim_def)
next
  case False
  have "prod_list (butlast sh @ [last sh]) = prod_list (butlast sh) * last sh"
    by (simp only: prod_list.append prod_list.Cons prod_list.Nil mult_1_right)
  then show ?thesis using False by (simp add: last_dim_def)
qed

lemma well_formed_length:
  "well_formed t \<Longrightarrow> length (data t) = num_rows t * last_dim (shape t)"
  unfolding well_formed_def num_rows_def
  by (cases "last_dim (shape t) = 0") (simp_all add: prod_list_last_dim [of "shape t"])

lemma row_index:
  assumes "i < num_rows t * last_dim (shape t)"
  shows "i div last_dim (shape t) < num_rows t"
  using assms by (simp add: less_mult_imp_div_less)

lemma length_row:
  "well_formed t \<Longrightarrow> r < num_rows t \<Longrightarrow> length (row t r) = last_dim (shape t)"
proof -
  assume wf: "well_formed t" and r: "r < num_rows t"
  let ?n = "last_dim (shape t)"
  have "Suc r * ?n \<le> num_rows t * ?n" using r by (intro mult_le_mono1) simp
  then have "r * ?n + ?n \<le> length (data t)" using well_formed_length [OF wf] by simp
  then show ?thesis by (simp add: row_def)
qed

lemma row_nth:
  "well_formed t \<Longrightarrow> r < num_rows t \<Longrightarrow> j < last_dim (shape t) \<Longrightarrow>
     row t r ! j = data t ! (r * last_dim (shape t) + j)"
proof -
  assume wf: "well_formed t" and r: "r < num_rows t" and j: "j < last_dim (shape t)"
  let ?n = "last_dim (shape t)"
  have "Suc r * ?n \<le> num_rows t * ?n" using r by (intro mult_le_mono1) simp
  then have "r * ?n + ?n \<le> length (data t)" using well_formed_length [OF wf] by simp
  then show ?thesis using j by (simp add: row_def)
qed

lemma row_t_map: "row (t_map f t) r = map f (row t r)"
  by (simp add: row_def take_map drop_map)

lemma num_rows_t_map [simp]: "num_rows (t_map f t) = num_rows t"
  by (simp add: num_rows_def)

lemma well_formed_t_map [simp]: "well_formed (t_map f t) = well_formed t"
  by (simp add: well_formed_def)

text \<open>
  Claim C2. For a tensor of any shape, \<open>RoundSTE.forward\<close> and \<open>SignSTE.forward\<close> return a
  tensor of the same shape and dtype with as many elements; every element of the rounded
  tensor is an integer nearest to the input element, every element of the sign tensor is
  \<open>-1\<close>, \<open>0\<close> or \<open>1\<close> according to the sign of the input element; and both
  \<open>backward\<close> functions return the incoming gradient tensor unchanged.
\<close>

theorem ste_round_sign_contract:
  "shape (RoundSTE_forward ctx x) = shape x
   \<and> dtype (RoundSTE_forward ctx x) = dtype x
   \<and> length (data (RoundSTE_forward ctx x)) = length (data x)
   \<and> (\<forall>i<length (data x).
         data (RoundSTE_forward ctx x) ! i \<in> \<int>
         \<and> (\<forall>k::int. \<bar>data (RoundSTE_forward ctx x) ! i - data x ! i\<bar> \<le> \<bar>of_int k - data x ! i\<bar>))
   \<and> shape (SignSTE_forward ctx x) = shape x
   \<and> dtype (SignSTE_forward ctx x) = dtype x
   \<and> length (data (SignSTE_forward ctx x)) = length (data x)
   \<and> (\<forall>i<length (data x).
         data (SignSTE_forward ctx x) ! i
           = (if data x ! i < 0 then - 1 else if data x ! i = 0 then 0 else 1))
   \<and> RoundSTE_backward ctx g = g
   \<and> SignSTE_backward ctx g = g"
  by (simp add: RoundSTE_forward_def SignSTE_forward_def torch_sign_def RoundSTE_backward_def
      SignSTE_backward_def torch_round_Ints torch_round_nearest sgn_real_def)

text \<open>
  Claim C2, at a concrete tensor: halves round to the even neighbour, and the gradient
  passes through.
\<close>

theorem ste_round_sign_contract_witness:
  "RoundSTE_forward () \<lparr>dtype = float32, shape = [2, 2], data = [5 / 2, 7 / 2, - 13 / 10, 0]\<rparr>
     = \<lparr>dtype = float32, shape = [2, 2], data = [2, 4, - 1, 0]\<rparr>
   \<and> SignSTE_forward () \<lparr>dtype = float32, shape = [2, 2], data = [5 / 2, 7 / 2, - 13 / 10, 0]\<rparr>
     = \<lparr>dtype = float32, shape = [2, 2], data = [1, 1, - 1, 0]\<rparr>
   \<and> RoundSTE_backward () \<lparr>dtype = float32, shape = [2], data = [3, - 4]\<rparr>
     = \<lparr>dtype = float32, shape = [2], data = [3, - 4]\<rparr>
   \<and> SignSTE_backward () \<lparr>dtype = float32, shape = [2], data = [3, - 4]\<rparr>
     = \<lparr>dtype = float32, shape = [2], data = [3, - 4]\<rparr>"
  using ste_round_sign_contract [of "()" "\<lparr>dtype = float32, shape = [2, 2], data = [5 / 2, 7 / 2, - 13 / 10, 0]\<rparr>"
      "\<lparr>dtype = float32, shape = [2], data = [3, - 4]\<rparr>"]
  by (simp add: RoundSTE_forward_def SignSTE_forward_def torch_sign_def t_map_def torch_round_def
      Let_def)

lemma concat_uniform:
  assumes "\<forall>r<k. length (f r) = n"
  shows "length (concat (map f [0..<k])) = k * n
     \<and> (\<forall>i<k * n. concat (map f [0..<k]) ! i = f (i div n) ! (i mod n))"
  using assms
proof (induction k)
  case 0
  then show ?case by simp
next
  case (Suc k)
  then have IH: "length (concat (map f [0..<k])) = k * n"
    "\<forall>i<k * n. concat (map f [0..<k]) ! i = f (i div n) ! (i mod n)" by simp_all
  have fk: "length (f k) = n" using Suc.prems by simp
  have c: "concat (map f [0..<Suc k]) = concat (map f [0..<k]) @ f k" by simp
  show ?case
  proof (intro conjI allI impI)
    show "length (concat (map f [0..<Suc k])) = Suc k * n" using IH fk by simp
  next
    fix i assume i: "i < Suc k * n"
    show "concat (map f [0..<Suc k]) ! i = f (i div n) ! (i mod n)"
    proof (cases "i < k * n")
      case True
      then show ?thesis unfolding c using IH by (simp add: nth_append)
    next
      case False
      then have ge: "k * n \<le> i" by simp
      have npos: "0 < n" using i by (cases n) simp_all
      have d: "i div n = k"
      proof -
        have "k \<le> i div n" using ge npos by (simp add: less_eq_div_iff_mult_less_eq)
        moreover have "i div n < Suc k" using i npos by (simp add: less_mult_imp_div_less)
        ultimately show ?thesis by simp
      qed
      have m: "i mod n = i - k * n"
        using d by (metis add_diff_cancel_left' div_mult_mod_eq mult.commute)
      show ?thesis unfolding c using False IH(1) d m by (simp add: nth_append)
    qed
  qed
qed

lemma quantize_row_length [simp]: "length (quantize_row e r) = length r"
  by (simp add: quantize_row_def Let_def)

lemma data_index_split:
  assumes "well_formed x" "i < length (data x)"
  shows "i div last_dim (shape x) < num_rows x" "i mod last_dim (shape x) < last_dim (shape x)"
    "0 < last_dim (shape x)"
proof -
  have l: "length (data x) = num_rows x * last_dim (shape x)"
    using well_formed_length [OF assms(1)] .
  show p: "0 < last_dim (shape x)" using assms(2) l by (cases "last_dim (shape x)") simp_all
  show "i div last_dim (shape x) < num_rows x" using assms(2) l by (simp add: less_mult_imp_div_less)
  show "i mod last_dim (shape x) < last_dim (shape x)" using p by simp
qed

lemma activation_quant_spec_data:
  assumes wf: "well_formed x"
  shows "length (data (activation_quant_spec e x)) = length (data x)"
    and "\<forall>i<length (data x). data (activation_quant_spec e x) ! i
            = quantize_row e (row x (i div last_dim (shape x))) ! (i mod last_dim (shape x))"
proof -
  let ?n = "last_dim (shape x)"
  have "\<forall>r<num_rows x. length (quantize_row e (row x r)) = ?n"
    using length_row [OF wf] by simp
  from concat_uniform [OF this] well_formed_length [OF wf]
  show "length (data (activation_quant_spec e x)) = length (data x)"
    and "\<forall>i<length (data x). data (activation_quant_spec e x) ! i
            = quantize_row e (row x (i div ?n)) ! (i mod ?n)"
    by (simp_all add: activation_quant_spec_def)
qed

lemma row_activation_quant_spec:
  assumes wf: "well_formed x" and r: "r < num_rows x"
  shows "row (activation_quant_spec e x) r = quantize_row e (row x r)"
proof (rule nth_equalityI)
  let ?n = "last_dim (shape x)" and ?y = "activation_quant_spec e x"
  have sh: "shape ?y = shape x" by (simp add: activation_quant_spec_def)
  have wfy: "well_formed ?y"
    using wf activation_quant_spec_data(1) [OF wf, of e] sh by (simp add: well_formed_def)
  have nr: "num_rows ?y = num_rows x"
    using activation_quant_spec_data(1) [OF wf, of e] sh by (simp add: num_rows_def)
  have ly: "length (row ?y r) = ?n" using length_row [OF wfy] r nr sh by simp
  show "length (row ?y r) = length (quantize_row e (row x r))"
    using ly length_row [OF wf r] by simp
  fix j assume "j < length (row ?y r)"
  then have j: "j < ?n" using ly by simp
  have "Suc r * ?n \<le> num_rows x * ?n" using r by (intro mult_le_mono1) simp
  then have lt: "r * ?n + j < length (data x)" using j well_formed_length [OF wf] by simp
  have "row ?y r ! j = data ?y ! (r * ?n + j)"
    using row_nth [OF wfy, of r j] r nr sh j by simp
  also have "\<dots> = quantize_row e (row x ((r * ?n + j) div ?n)) ! ((r * ?n + j) mod ?n)"
    using activation_quant_spec_data(2) [OF wf, of e] lt by simp
  also have "\<dots> = quantize_row e (row x r) ! j" using j by simp
  finally show "row ?y r ! j = quantize_row e (row x r) ! j" .
qed

lemma quantize_row_levels:
  "set (quantize_row e r) \<subseteq> (\<lambda>k. real_of_int k / row_scale e r) ` {- 128..127}"
proof
  fix v assume "v \<in> set (quantize_row e r)"
  then have "v \<in> (\<lambda>u. clamp (- 128) 127 (torch_round (u * row_scale e r)) / row_scale e r) ` set r"
    by (simp only: quantize_row_def Let_def set_map)
  then obtain u where v: "v = clamp (- 128) 127 (torch_round (u * row_scale e r)) / row_scale e r"
    by blast
  obtain k :: int where k: "torch_round (u * row_scale e r) = of_int k"
    using torch_round_cases by blast
  obtain j :: int where j: "j \<in> {- 128..127}" "clamp (- 128) 127 (of_int k) = of_int j"
    using clamp_int8 by blast
  have "v = real_of_int j / row_scale e r" using v k j(2) by simp
  then show "v \<in> (\<lambda>k. real_of_int k / row_scale e r) ` {- 128..127}"
    using j(1) by (rule image_eqI)
qed

lemma quantize_row_card: "card (set (quantize_row e r)) \<le> 256"
proof -
  let ?g = "\<lambda>k. real_of_int k / row_scale e r"
  have "card (set (quantize_row e r)) \<le> card (?g ` {- 128..127})"
    by (intro card_mono quantize_row_levels) simp
  also have "\<dots> \<le> card {- 128..127::int}" by (rule card_image_le) simp
  also have "\<dots> = 256" by simp
  finally show ?thesis .
qed

lemma finfo_eps_pos: "0 < finfo_eps d"
  by (cases d) simp_all

lemma finfo_eps_le_max: "finfo_eps d \<le> finfo_max d"
  by (cases d) simp_all

lemma finfo_max_lt_threshold: "finfo_max d < overflow_threshold d"
  by (cases d) simp_all

lemma finfo_max_ge: "65504 \<le> finfo_max d"
  by (cases d) simp_all

lemma fl_Fin: "\<bar>r\<bar> < overflow_threshold d \<Longrightarrow> fl d r = Fin r"
  by (auto simp: fl_def)

lemma fl_Fin_max: "\<bar>r\<bar> \<le> finfo_max d \<Longrightarrow> fl d r = Fin r"
  using finfo_max_lt_threshold [of d] by (intro fl_Fin) simp

lemma f_Max_Fin: "rs \<noteq> [] \<Longrightarrow> f_Max (map Fin rs) = Fin (Max (set rs))"
proof (induction rs)
  case Nil
  then show ?case by simp
next
  case (Cons a rs)
  show ?case
  proof (cases rs)
    case Nil
    then show ?thesis by simp
  next
    case (Cons b bs)
    then have "f_Max (map Fin rs) = Fin (Max (set rs))" using Cons.IH by simp
    then show ?thesis using Cons by (simp add: max.commute)
  qed
qed

lemma finite_tensor_nth:
  assumes "finite_tensor x" and "i < length (data x)"
  shows "data x ! i = Fin (real_of (data x ! i))" and "\<bar>real_of (data x ! i)\<bar> \<le> finfo_max (dtype x)"
proof -
  have "finite_in (dtype x) (data x ! i)"
    using assms by (simp add: finite_tensor_def list_all_length)
  then show "data x ! i = Fin (real_of (data x ! i))"
    and "\<bar>real_of (data x ! i)\<bar> \<le> finfo_max (dtype x)"
    by (cases "data x ! i"; simp)+
qed

lemma reals_simps [simp]:
  "shape (reals x) = shape x" "dtype (reals x) = dtype x"
  "data (reals x) = map real_of (data x)" "length (data (reals x)) = length (data x)"
  "num_rows (reals x) = num_rows x" "well_formed (reals x) = well_formed x"
  by (simp_all add: reals_def num_rows_def well_formed_def)

lemma of_reals_simps [simp]:
  "shape (of_reals t) = shape t" "dtype (of_reals t) = dtype t"
  "data (of_reals t) = map Fin (data t)" "length (data (of_reals t)) = length (data t)"
  "num_rows (of_reals t) = num_rows t" "well_formed (of_reals t) = well_formed t"
  by (simp_all add: of_reals_def num_rows_def well_formed_def)

lemma row_reals: "row (reals x) r = map real_of (row x r)"
  by (simp add: row_def take_map drop_map)

lemma row_of_reals: "row (of_reals t) r = map Fin (row t r)"
  by (simp add: row_def take_map drop_map)

lemma of_reals_reals: "finite_tensor x \<Longrightarrow> of_reals (reals x) = x"
proof -
  assume f: "finite_tensor x"
  have "map Fin (map real_of (data x)) = data x"
    using finite_tensor_nth(1) [OF f] by (intro nth_equalityI) simp_all
  then show ?thesis by (intro tensor_of.equality) simp_all
qed

lemma finite_row:
  assumes "finite_tensor x"
  shows "row x r = map Fin (row (reals x) r)"
  using arg_cong [OF of_reals_reals [OF assms], of "\<lambda>t. row t r"] by (simp add: row_of_reals)

lemma finite_row_bound:
  assumes "finite_tensor x" and "v \<in> set (row (reals x) r)"
  shows "\<bar>v\<bar> \<le> finfo_max (dtype x)"
proof -
  have "set (row (reals x) r) \<subseteq> set (map real_of (data x))"
    using set_take_subset [of "last_dim (shape x)" "drop (r * last_dim (shape x)) (map real_of (data x))"]
      set_drop_subset [of "r * last_dim (shape x)" "map real_of (data x)"]
    by (simp add: row_def)
  then have "v \<in> set (map real_of (data x))" using assms(2) by blast
  then obtain i where "i < length (data x)" "v = real_of (data x ! i)"
    by (auto simp: in_set_conv_nth)
  then show ?thesis using finite_tensor_nth(2) [OF assms(1)] by simp
qed

text \<open>The scale of row r, as the source computes it.\<close>

lemma activation_scale_Inr:
  assumes "0 < last_dim (shape x)"
  shows "\<exists>s. activation_scale x = Inr s \<and> length (data s) = num_rows x
     \<and> (\<forall>r<num_rows x. data s ! r
          = f_div (dtype x) (Fin 127) (f_clamp_min (finfo_eps (dtype x)) (f_Max (map f_abs (row x r)))))"
  using assms
  by (simp add: activation_scale_def max_lastdim_keepdim_def torch_abs_def scalar_rdiv_def
      torch_clamp_min_def row_t_map)

lemma activation_quant_Inr:
  assumes wf: "well_formed x" and n: "0 < last_dim (shape x)"
  shows "\<exists>y. activation_quant x = Inr y \<and> shape y = shape x \<and> dtype y = dtype x
     \<and> length (data y) = length (data x)
     \<and> (\<forall>i<length (data x). data y ! i =
           f_div (dtype x)
             (f_clamp (- 128) 127 (f_round (f_mul (dtype x) (data x ! i)
                (f_div (dtype x) (Fin 127) (f_clamp_min (finfo_eps (dtype x))
                   (f_Max (map f_abs (row x (i div last_dim (shape x))))))))))
             (f_div (dtype x) (Fin 127) (f_clamp_min (finfo_eps (dtype x))
                   (f_Max (map f_abs (row x (i div last_dim (shape x))))))))"
proof -
  obtain s where s: "activation_scale x = Inr s" "length (data s) = num_rows x"
    and sv: "\<forall>r<num_rows x. data s ! r
          = f_div (dtype x) (Fin 127) (f_clamp_min (finfo_eps (dtype x)) (f_Max (map f_abs (row x r))))"
    using activation_scale_Inr [OF n] by blast
  have idx: "i div last_dim (shape x) < num_rows x" if "i < length (data x)" for i
    using that well_formed_length [OF wf] row_index [of i x] by simp
  show ?thesis
    using s sv idx
    by (simp add: activation_quant_def Let_def mul_rowwise_def div_rowwise_def torch_clamp_def
        RoundSTE_apply_def)
qed

text \<open>One row on finite values with a scale below the overflow threshold.\<close>

lemma row_scale_pos:
  assumes "0 < e"
  shows "0 < row_scale e rs"
  using assms by (simp add: row_scale_def less_max_iff_disj)

lemma scale_finite:
  assumes rs: "rs \<noteq> []" and e: "0 < e" and "row_scale e rs < overflow_threshold d"
  shows "f_div d (Fin 127) (f_clamp_min e (f_Max (map f_abs (map Fin rs)))) = Fin (row_scale e rs)"
proof -
  have "map f_abs (map Fin rs) = map Fin (map abs rs)" by simp
  then have "f_Max (map f_abs (map Fin rs)) = f_Max (map Fin (map abs rs))" by (rule arg_cong)
  also have "\<dots> = Fin (Max (set (map abs rs)))" using rs by (intro f_Max_Fin) simp
  finally have "f_Max (map f_abs (map Fin rs)) = Fin (Max (set (map abs rs)))" .
  moreover have "max e (Max (set (map abs rs))) \<noteq> 0" using e by (simp add: max_def)
  moreover have "\<bar>row_scale e rs\<bar> < overflow_threshold d"
    using row_scale_pos [OF e, of rs] assms(3) by simp
  ultimately show ?thesis
    using fl_Fin [of "row_scale e rs" d]
    by (simp only: f_clamp_min.simps f_div.simps if_False row_scale_def max.commute)
qed

lemma scaled_bound:
  assumes a: "a \<in> set rs" and e: "0 < e"
  shows "\<bar>a * row_scale e rs\<bar> \<le> 127"
proof -
  let ?m = "max (Max (set (map abs rs))) e"
  have "\<bar>a\<bar> \<le> Max (set (map abs rs))" using a by (intro Max_ge) auto
  then have am: "\<bar>a\<bar> \<le> ?m" by simp
  have m: "0 < ?m" using e by (simp add: less_max_iff_disj)
  have "\<bar>a * row_scale e rs\<bar> = \<bar>a\<bar> * 127 / ?m"
    using m by (simp add: row_scale_def abs_mult)
  also have "\<dots> \<le> 127" using am m by (simp add: field_simps)
  finally show ?thesis .
qed

lemma round_bound:
  assumes "\<bar>x\<bar> \<le> of_int n"
  shows "\<bar>torch_round x\<bar> \<le> of_int n"
proof -
  have "x \<le> of_int n" and "of_int (- n) \<le> x" using assms by simp_all
  then have "torch_round x \<le> of_int n" and "of_int (- n) \<le> torch_round x"
    using torch_round_le [of x n] torch_round_ge [of "- n" x] by simp_all
  then show ?thesis by simp
qed

lemma quant_elem:
  assumes a: "a \<in> set rs" and e: "0 < e" and eM: "e \<le> finfo_max d"
    and bound: "\<forall>v\<in>set rs. \<bar>v\<bar> \<le> finfo_max d"
    and s: "row_scale e rs < overflow_threshold d"
  shows "f_div d (f_clamp (- 128) 127 (f_round (f_mul d (Fin a) (Fin (row_scale e rs)))))
           (Fin (row_scale e rs))
         = Fin (clamp (- 128) 127 (torch_round (a * row_scale e rs)) / row_scale e rs)"
proof -
  let ?s = "row_scale e rs"
  let ?m = "max (Max (set (map abs rs))) e"
  define k where "k = clamp (- 128) 127 (torch_round (a * ?s))"
  have sp: "0 < ?s" using row_scale_pos [OF e] .
  have as: "\<bar>a * ?s\<bar> \<le> 127" using scaled_bound [OF a e] .
  have "\<bar>a * ?s\<bar> < overflow_threshold d"
    using as finfo_max_ge [of d] finfo_max_lt_threshold [of d] by simp
  then have mul: "f_mul d (Fin a) (Fin ?s) = Fin (a * ?s)" by (simp add: fl_Fin)
  have "\<bar>torch_round (a * ?s)\<bar> \<le> of_int 127" using as by (intro round_bound) simp
  then have k: "\<bar>k\<bar> \<le> 127" by (simp add: clamp_def k_def)
  have m: "0 < ?m" using e by (simp add: less_max_iff_disj)
  have mM: "?m \<le> finfo_max d"
  proof -
    have "rs \<noteq> []" using a by auto
    then have "Max (set (map abs rs)) \<le> finfo_max d" using bound by (subst Max_le_iff) auto
    then show ?thesis using eM by simp
  qed
  have "k / ?s = k * ?m / 127" unfolding row_scale_def by simp
  then have "\<bar>k / ?s\<bar> = \<bar>k * ?m / 127\<bar>" by (rule arg_cong)
  also have "\<dots> = \<bar>k\<bar> * ?m / 127" using m by (simp add: abs_mult)
  also have "\<dots> \<le> ?m" using k m by (simp add: field_simps mult_right_mono)
  finally have "\<bar>k / ?s\<bar> \<le> ?m" .
  then have "\<bar>k / ?s\<bar> \<le> finfo_max d" using mM by (rule order_trans)
  then have "fl d (k / ?s) = Fin (k / ?s)" by (rule fl_Fin_max)
  then show ?thesis using mul sp by (simp add: k_def)
qed

lemma activation_quant_empty_rows:
  "last_dim (shape x) = 0 \<Longrightarrow> activation_quant x = Inl IndexError"
  by (simp add: activation_quant_def activation_scale_def max_lastdim_keepdim_def torch_abs_def)

text \<open>Rows are quantized independently of each other.\<close>

lemma activation_quant_row:
  assumes wf: "well_formed x" and n: "0 < last_dim (shape x)" and r: "r < num_rows x"
    and rs: "row x r = map Fin rs"
    and bound: "\<forall>v\<in>set rs. \<bar>v\<bar> \<le> finfo_max (dtype x)"
    and s: "row_scale (finfo_eps (dtype x)) rs < overflow_threshold (dtype x)"
  shows "\<exists>y. activation_quant x = Inr y \<and> shape y = shape x \<and> dtype y = dtype x
           \<and> well_formed y \<and> num_rows y = num_rows x
           \<and> row y r = map Fin (quantize_row (finfo_eps (dtype x)) rs)"
proof -
  let ?n = "last_dim (shape x)" and ?e = "finfo_eps (dtype x)" and ?d = "dtype x"
  obtain y where y: "activation_quant x = Inr y" "shape y = shape x" "dtype y = dtype x"
    "length (data y) = length (data x)"
    and yv: "\<forall>i<length (data x). data y ! i =
           f_div ?d
             (f_clamp (- 128) 127 (f_round (f_mul ?d (data x ! i)
                (f_div ?d (Fin 127) (f_clamp_min ?e (f_Max (map f_abs (row x (i div ?n)))))))))
             (f_div ?d (Fin 127) (f_clamp_min ?e (f_Max (map f_abs (row x (i div ?n))))))"
    using activation_quant_Inr [OF wf n] by blast
  have wfy: "well_formed y" using wf y(2,4) by (simp add: well_formed_def)
  have nr: "num_rows y = num_rows x" using y(2,4) by (simp add: num_rows_def)
  have lr: "length rs = ?n" using length_row [OF wf r] rs by (metis length_map)
  have ne: "rs \<noteq> []" using lr n by auto
  have sc: "f_div ?d (Fin 127) (f_clamp_min ?e (f_Max (map f_abs (map Fin rs))))
              = Fin (row_scale ?e rs)"
    using scale_finite [OF ne finfo_eps_pos s] .
  have "row y r = map Fin (quantize_row ?e rs)"
  proof (rule nth_equalityI)
    show "length (row y r) = length (map Fin (quantize_row ?e rs))"
      using length_row [OF wfy, of r] r nr y(2) lr by simp
  next
    fix j assume "j < length (row y r)"
    then have j: "j < ?n" using length_row [OF wfy, of r] r nr y(2) by simp
    have "Suc r * ?n \<le> num_rows x * ?n" using r by (intro mult_le_mono1) simp
    then have lt: "r * ?n + j < length (data x)" using j well_formed_length [OF wf] by simp
    have dv: "(r * ?n + j) div ?n = r" using j by simp
    have xj: "data x ! (r * ?n + j) = Fin (rs ! j)"
      using row_nth [OF wf r j] rs j lr by simp
    have mem: "rs ! j \<in> set rs" using j lr by simp
    have "row y r ! j = data y ! (r * ?n + j)"
      using row_nth [OF wfy, of r j] r nr y(2) j by simp
    also have "\<dots> = f_div ?d (f_clamp (- 128) 127 (f_round (f_mul ?d (Fin (rs ! j))
                          (Fin (row_scale ?e rs))))) (Fin (row_scale ?e rs))"
      using yv lt by (simp only: dv xj rs sc)
    also have "\<dots> = Fin (clamp (- 128) 127 (torch_round (rs ! j * row_scale ?e rs))
                           / row_scale ?e rs)"
      using quant_elem [OF mem finfo_eps_pos finfo_eps_le_max bound s] .
    also have "\<dots> = map Fin (quantize_row ?e rs) ! j"
      using j lr by (simp add: quantize_row_def Let_def)
    finally show "row y r ! j = map Fin (quantize_row ?e rs) ! j" .
  qed
  with y wfy nr show ?thesis by blast
qed

text \<open>
  The scale of a row is at most \<open>127 / eps\<close>, which only half precision cannot hold;
  there the scale is in range exactly for the rows whose largest magnitude exceeds
  \<open>127 / 65520\<close>.
\<close>

lemma row_scale_le: "0 < e \<Longrightarrow> row_scale e rs \<le> 127 / e"
  by (simp add: row_scale_def frac_le)

lemma top_scale_in_range:
  "d \<noteq> float16 \<Longrightarrow> 127 / finfo_eps d < overflow_threshold d"
  by (cases d) simp_all

lemma row_scale_in_range:
  assumes "d = float16 \<longrightarrow> 127 / 65520 < Max (set (map abs rs))"
  shows "row_scale (finfo_eps d) rs < overflow_threshold d"
proof (cases "d = float16")
  case True
  let ?m = "Max (set (map abs rs))"
  have m: "127 / 65520 < ?m" using assms True by simp
  then have "127 / max ?m (1 / 2 ^ 10) \<le> 127 / ?m" by (intro frac_le) simp_all
  also have "\<dots> < 65520" using m by (simp add: field_simps)
  finally show ?thesis using True by (simp add: row_scale_def)
next
  case False
  then show ?thesis
    using row_scale_le [OF finfo_eps_pos, of d rs] top_scale_in_range [of d] by simp
qed

lemma activation_quant_finite:
  assumes wf: "well_formed x" and n: "0 < last_dim (shape x)" and fin: "finite_tensor x"
    and s: "\<forall>r<num_rows x.
              row_scale (finfo_eps (dtype x)) (row (reals x) r) < overflow_threshold (dtype x)"
  shows "activation_quant x = Inr (of_reals (activation_quant_spec (finfo_eps (dtype x)) (reals x)))"
proof -
  let ?n = "last_dim (shape x)" and ?e = "finfo_eps (dtype x)"
  let ?z = "activation_quant_spec ?e (reals x)"
  obtain y where y: "activation_quant x = Inr y" "shape y = shape x" "dtype y = dtype x"
    "length (data y) = length (data x)"
    using activation_quant_Inr [OF wf n] by blast
  have wfy: "well_formed y" using wf y(2,4) by (simp add: well_formed_def)
  have wfr: "well_formed (reals x)" using wf by simp
  have "data y = map Fin (data ?z)"
  proof (rule nth_equalityI)
    show "length (data y) = length (map Fin (data ?z))"
      using y(4) activation_quant_spec_data(1) [OF wfr, of ?e] by simp
  next
    fix i assume "i < length (data y)"
    then have i: "i < length (data x)" using y(4) by simp
    note sp = data_index_split [OF wf i]
    let ?r = "i div ?n"
    have bound: "\<forall>v\<in>set (row (reals x) ?r). \<bar>v\<bar> \<le> finfo_max (dtype x)"
      using finite_row_bound [OF fin] by blast
    obtain y' where y': "activation_quant x = Inr y'"
      "row y' ?r = map Fin (quantize_row ?e (row (reals x) ?r))"
      using activation_quant_row [OF wf n sp(1) finite_row [OF fin] bound] s sp(1) by blast
    have ry: "row y ?r = map Fin (quantize_row ?e (row (reals x) ?r))" using y(1) y' by simp
    have ri: "?r < num_rows y" using sp(1) y(2,4) by (simp add: num_rows_def)
    have "data y ! i = row y ?r ! (i mod ?n)"
      using row_nth [OF wfy ri, of "i mod ?n"] sp(2) y(2) by simp
    also have "\<dots> = Fin (quantize_row ?e (row (reals x) ?r) ! (i mod ?n))"
      using ry sp(2) length_row [OF wfr, of ?r] sp(1) by simp
    also have "\<dots> = map Fin (data ?z) ! i"
      using activation_quant_spec_data [OF wfr, of ?e] i by simp
    finally show "data y ! i = map Fin (data ?z) ! i" .
  qed
  then have "y = of_reals ?z"
    using y(2,3) by (intro tensor_of.equality) (simp_all add: activation_quant_spec_def)
  then show ?thesis using y(1) by simp
qed

lemma weight_quant_spec_values:
  "set (data (weight_quant_spec w)) \<subseteq> {- 1 / weight_scale_spec w, 0, 1 / weight_scale_spec w}"
proof
  fix v assume "v \<in> set (data (weight_quant_spec w))"
  then obtain u where v: "v = clamp (- 1) 1 (torch_round (u * weight_scale_spec w)) / weight_scale_spec w"
    by (auto simp: weight_quant_spec_def)
  obtain k :: int where k: "torch_round (u * weight_scale_spec w) = of_int k"
    using torch_round_cases by blast
  have "clamp (- 1) 1 (of_int k) \<in> {- 1, 0, 1}" by (rule clamp_ternary)
  then show "v \<in> {- 1 / weight_scale_spec w, 0, 1 / weight_scale_spec w}"
    using v k by auto
qed

lemma row_scale_zero_row:
  assumes "0 < length r" and "\<forall>v\<in>set r. v = 0" and "0 < e"
  shows "row_scale e r = 127 / e" and "quantize_row e r = r"
proof -
  have "r \<noteq> []" using assms(1) by auto
  then have "hd r \<in> set r" by (rule hd_in_set)
  then have "0 \<in> set r" using assms(2) by auto
  then have "set r = {0}" using assms(2) by auto
  then have "set (map abs r) = {0}" by simp
  then have m: "Max (set (map abs r)) = 0" by simp
  show s: "row_scale e r = 127 / e" unfolding row_scale_def m using assms(3) by simp
  have "clamp (- 128) 127 (torch_round (v * row_scale e r)) / row_scale e r = v"
    if "v \<in> set r" for v
  proof -
    have "v = 0" using that assms(2) by blast
    then show ?thesis by (simp add: clamp_def)
  qed
  then show "quantize_row e r = r"
    unfolding quantize_row_def Let_def by (intro map_idI) blast
qed

lemma e1: "torch_round (127 / 128) = 1"
  by (simp add: torch_round_def Let_def)

lemma e2: "row_scale (1 / 2 ^ 23) [1 / 2 ^ 30] = 127 * 2 ^ 23"
  by (simp add: row_scale_def)

lemma e3: "quantize_row (1 / 2 ^ 23) [1 / 2 ^ 30] = [1 / (127 * 2 ^ 23)]"
  unfolding quantize_row_def Let_def e2 by (simp add: e1 clamp_def)

lemma f1: "torch_round 127 = 127"
  using torch_round_of_int [of 127] by simp

lemma e4: "row_scale (1 / 2 ^ 149) [1 / 2 ^ 30] = 127 * 2 ^ 30"
  by (simp add: row_scale_def)

lemma e5: "row_scale (1 / 2 ^ 126) [1 / 2 ^ 30] = 127 * 2 ^ 30"
  by (simp add: row_scale_def)

lemma e6: "quantize_row (1 / 2 ^ 149) [1 / 2 ^ 30] = [1 / 2 ^ 30]"
  unfolding quantize_row_def Let_def e4 by (simp add: f1 clamp_def)

lemma e7: "quantize_row (1 / 2 ^ 126) [1 / 2 ^ 30] = [1 / 2 ^ 30]"
  unfolding quantize_row_def Let_def e5 by (simp add: f1 clamp_def)

lemma x0_spec:
  "activation_quant_spec e \<lparr>dtype = float32, shape = [1], data = [1 / 2 ^ 30]\<rparr>
     = \<lparr>dtype = float32, shape = [1], data = quantize_row e [1 / 2 ^ 30]\<rparr>"
  by (simp add: activation_quant_spec_def num_rows_def row_def last_dim_def)

lemma g1: "torch_round (- (127 / 2)) = - 64"
  by (simp add: torch_round_def Let_def)

lemma g2: "row_scale (1 / 2 ^ 23) [1, - 1 / 2] = 127"
  by (simp add: row_scale_def)

lemma g3: "quantize_row (1 / 2 ^ 23) [1, - 1 / 2] = [1, - 64 / 127]"
  unfolding quantize_row_def Let_def g2 by (simp add: f1 g1 clamp_def)

lemma g4: "row_scale (1 / 2 ^ 23) [1 / 2 ^ 30, 0] = 127 * 2 ^ 23"
  by (simp add: row_scale_def)

lemma g5: "quantize_row (1 / 2 ^ 23) [1 / 2 ^ 30, 0] = [1 / (127 * 2 ^ 23), 0]"
  unfolding quantize_row_def Let_def g4 by (simp add: e1 clamp_def)

lemma g6:
  "activation_quant_spec e \<lparr>dtype = float32, shape = [2, 2], data = [1, - 1 / 2, 1 / 2 ^ 30, 0]\<rparr>
     = \<lparr>dtype = float32, shape = [2, 2],
         data = quantize_row e [1, - 1 / 2] @ quantize_row e [1 / 2 ^ 30, 0]\<rparr>"
  by (simp add: activation_quant_spec_def num_rows_def row_def last_dim_def upt_rec)

lemma float32_in_range:
  "row_scale (finfo_eps float32) rs < overflow_threshold float32"
  by (rule row_scale_in_range) simp



lemma h1: "row_scale (1 / 2 ^ 10) [1, - 1 / 2] = 127"
  by (simp add: row_scale_def)

lemma h2: "quantize_row (1 / 2 ^ 10) [1, - 1 / 2] = [1, - 64 / 127]"
  unfolding quantize_row_def Let_def h1 by (simp add: f1 g1 clamp_def)

lemma h3: "row_scale (1 / 2 ^ 10) [1 / 4, 0] = 508"
  by (simp add: row_scale_def)

lemma h4: "quantize_row (1 / 2 ^ 10) [1 / 4, 0] = [1 / 4, 0]"
  unfolding quantize_row_def Let_def h3 by (simp add: f1 clamp_def)





lemma sum_list_bound:
  fixes f :: "'a \<Rightarrow> real"
  assumes "\<forall>x\<in>set xs. f x \<le> M"
  shows "sum_list (map f xs) \<le> real (length xs) * M"
  using assms by (induction xs) (auto simp: algebra_simps)

lemma threshold_ge_one: "1 \<le> overflow_threshold d"
  using finfo_max_ge [of d] finfo_max_lt_threshold [of d] by simp

text \<open>A product that overflows is clamped to the bound that its exact value rounds to.\<close>

lemma clamp_round_fl:
  "f_clamp (- 1) 1 (f_round (fl d x)) = Fin (clamp (- 1) 1 (torch_round x))"
proof -
  consider "overflow_threshold d \<le> x" | "x \<le> - overflow_threshold d"
    | "\<not> overflow_threshold d \<le> x" "\<not> x \<le> - overflow_threshold d" by blast
  then show ?thesis
  proof cases
    case 1
    then have "of_int 1 \<le> x" using threshold_ge_one [of d] by simp
    then have "of_int 1 \<le> torch_round x" by (rule torch_round_ge)
    then show ?thesis using 1 by (simp add: fl_def clamp_def)
  next
    case 2
    then have "x \<le> of_int (- 1)" using threshold_ge_one [of d] by simp
    then have "torch_round x \<le> of_int (- 1)" by (rule torch_round_le)
    moreover have "\<not> overflow_threshold d \<le> x" using 2 threshold_ge_one [of d] by simp
    ultimately show ?thesis using 2 by (simp add: fl_def clamp_def)
  next
    case 3
    then show ?thesis by (simp add: fl_def)
  qed
qed

lemma weight_scale_spec_pos: "0 < weight_scale_spec w"
proof -
  have "(0::real) < max ((\<Sum>v\<leftarrow>data w. \<bar>v\<bar>) / real (length (data w))) (1 / 100000)"
    by (simp only: less_max_iff_disj) simp
  then show ?thesis unfolding weight_scale_spec_def by simp
qed

lemma abs_mean_finite:
  assumes fin: "finite_tensor w" and ne: "data w \<noteq> []"
  shows "abs_mean w = Fin ((\<Sum>v\<leftarrow>data (reals w). \<bar>v\<bar>) / real (length (data w)))"
    and "(\<Sum>v\<leftarrow>data (reals w). \<bar>v\<bar>) / real (length (data w)) \<le> finfo_max (dtype w)"
proof -
  let ?vs = "data w" and ?M = "finfo_max (dtype w)"
  have el: "v \<in> set ?vs \<Longrightarrow> v = Fin (real_of v) \<and> \<bar>real_of v\<bar> \<le> ?M" for v
    using finite_tensor_nth [OF fin] by (metis in_set_conv_nth)
  have all: "list_all is_Fin (map f_abs ?vs)"
    unfolding list_all_iff
  proof
    fix u assume "u \<in> set (map f_abs ?vs)"
    then obtain v where v: "v \<in> set ?vs" "u = f_abs v" by auto
    then have "u = f_abs (Fin (real_of v))" using el by simp
    then show "is_Fin u" by simp
  qed
  have e: "map real_of (map f_abs ?vs) = map (\<lambda>v. \<bar>real_of v\<bar>) ?vs"
  proof (rule nth_equalityI)
    show "length (map real_of (map f_abs ?vs)) = length (map (\<lambda>v. \<bar>real_of v\<bar>) ?vs)" by simp
  next
    fix i assume "i < length (map real_of (map f_abs ?vs))"
    then have i: "i < length ?vs" by simp
    then have "?vs ! i = Fin (real_of (?vs ! i))" using finite_tensor_nth(1) [OF fin] by simp
    then have "f_abs (?vs ! i) = Fin \<bar>real_of (?vs ! i)\<bar>" by (metis f_abs.simps(1))
    then show "map real_of (map f_abs ?vs) ! i = map (\<lambda>v. \<bar>real_of v\<bar>) ?vs ! i"
      using i by simp
  qed
  have "sum_list (map real_of (map f_abs ?vs)) = sum_list (map (\<lambda>v. \<bar>real_of v\<bar>) ?vs)"
    by (rule arg_cong [OF e])
  also have "\<dots> = (\<Sum>v\<leftarrow>data (reals w). \<bar>v\<bar>)" by (simp add: comp_def)
  finally have sum: "sum_list (map real_of (map f_abs ?vs)) = (\<Sum>v\<leftarrow>data (reals w). \<bar>v\<bar>)" .
  have "(\<Sum>v\<leftarrow>?vs. \<bar>real_of v\<bar>) \<le> real (length ?vs) * ?M"
    using el by (intro sum_list_bound) blast
  then have le: "(\<Sum>v\<leftarrow>data (reals w). \<bar>v\<bar>) / real (length ?vs) \<le> ?M"
    using ne by (simp add: comp_def field_simps)
  have nn: "0 \<le> (\<Sum>v\<leftarrow>data (reals w). \<bar>v\<bar>) / real (length ?vs)"
    by (intro divide_nonneg_nonneg sum_list_nonneg) auto
  show "(\<Sum>v\<leftarrow>data (reals w). \<bar>v\<bar>) / real (length ?vs) \<le> ?M" by (rule le)
  have "fl (dtype w) ((\<Sum>v\<leftarrow>data (reals w). \<bar>v\<bar>) / real (length ?vs))
          = Fin ((\<Sum>v\<leftarrow>data (reals w). \<bar>v\<bar>) / real (length ?vs))"
    using le nn by (intro fl_Fin_max) simp
  then show "abs_mean w = Fin ((\<Sum>v\<leftarrow>data (reals w). \<bar>v\<bar>) / real (length ?vs))"
    unfolding abs_mean_def f_mean_def torch_abs_def t_map_simps
    by (simp only: all ne sum if_True if_False map_is_Nil_conv length_map)
qed

lemma weight_quant_finite:
  assumes fin: "finite_tensor w"
    and s: "weight_scale_spec (reals w) < overflow_threshold (dtype w)"
  shows "weight_quant w = of_reals (weight_quant_spec (reals w))"
proof -
  let ?d = "dtype w" and ?s = "weight_scale_spec (reals w)"
  let ?S = "f_div ?d (Fin 1) (f_clamp_min (1 / 100000) (abs_mean w))"
  let ?F = "\<lambda>v. f_div ?d (f_clamp (- 1) 1 (f_round (f_mul ?d v ?S))) ?S"
  let ?G = "\<lambda>r. clamp (- 1) 1 (torch_round (r * ?s)) / ?s"
  have dw: "data (weight_quant w) = map ?F (data w)"
    by (simp add: weight_quant_def Let_def torch_clamp_def RoundSTE_apply_def comp_def)
  have "map ?F (data w) = map (\<lambda>v. Fin (?G (real_of v))) (data w)"
  proof (rule map_cong [OF refl])
    fix v assume v: "v \<in> set (data w)"
    then have ne: "data w \<noteq> []" by auto
    obtain i where i: "i < length (data w)" "v = data w ! i"
      using v by (auto simp: in_set_conv_nth)
    have vf: "v = Fin (real_of v)" using finite_tensor_nth(1) [OF fin i(1)] i(2) by simp
    let ?m = "(\<Sum>v\<leftarrow>data (reals w). \<bar>v\<bar>) / real (length (data w))"
    let ?c = "max ?m (1 / 100000)"
    have c: "0 < ?c" by (simp only: less_max_iff_disj) simp
    have sc: "?s = 1 / ?c" by (simp add: weight_scale_spec_def)
    have sp: "0 < ?s" by (rule weight_scale_spec_pos)
    have "?S = f_div ?d (Fin 1) (Fin ?c)"
      using abs_mean_finite(1) [OF fin ne] by (simp add: max.commute)
    also have "\<dots> = fl ?d ?s" using c sc by simp
    also have "\<dots> = Fin ?s" using sp s by (intro fl_Fin) simp
    finally have S: "?S = Fin ?s" .
    define k where "k = clamp (- 1) 1 (torch_round (real_of v * ?s))"
    have k: "\<bar>k\<bar> \<le> 1" by (simp add: k_def clamp_def)
    have cM: "?c \<le> finfo_max ?d"
      using abs_mean_finite(2) [OF fin ne] finfo_max_ge [of ?d] by simp
    have "k / ?s = k * ?c" by (simp add: sc)
    then have "\<bar>k / ?s\<bar> = \<bar>k * ?c\<bar>" by (rule arg_cong)
    also have "\<dots> = \<bar>k\<bar> * ?c" using c by (simp add: abs_mult)
    also have "\<dots> \<le> 1 * ?c" using k c by (intro mult_right_mono) simp_all
    finally have "\<bar>k / ?s\<bar> \<le> ?c" by simp
    then have "\<bar>k / ?s\<bar> \<le> finfo_max ?d" using cM by (rule order_trans)
    then have dv: "fl ?d (k / ?s) = Fin (k / ?s)" by (rule fl_Fin_max)
    have "?F v = f_div ?d (f_clamp (- 1) 1 (f_round (f_mul ?d (Fin (real_of v)) (Fin ?s)))) (Fin ?s)"
      unfolding S using vf by simp
    also have "\<dots> = f_div ?d (Fin k) (Fin ?s)"
      by (simp only: f_mul.simps clamp_round_fl k_def)
    also have "\<dots> = Fin (k / ?s)" using sp dv by simp
    finally show "?F v = Fin (?G (real_of v))" by (simp add: k_def)
  qed
  then have "data (weight_quant w) = map Fin (data (weight_quant_spec (reals w)))"
    using dw by (simp add: weight_quant_spec_def comp_def)
  then show ?thesis
    by (intro tensor_of.equality)
      (simp_all add: weight_quant_def Let_def torch_clamp_def RoundSTE_apply_def
        weight_quant_spec_def)
qed

lemma inv_max_less:
  fixes m :: real
  assumes "1 / 65520 < m"
  shows "1 / max m (1 / 100000) < 65520"
proof -
  have mp: "0 < m" by (rule less_trans [OF _ assms]) simp
  then have "1 / max m (1 / 100000) \<le> 1 / m" by (intro frac_le) simp_all
  also have "\<dots> < 65520" using assms mp by (simp add: field_simps)
  finally show ?thesis .
qed

lemma weight_scale_in_range:
  assumes "dtype w = float16 \<longrightarrow>
             1 / 65520 < (\<Sum>v\<leftarrow>data (reals w). \<bar>v\<bar>) / real (length (data w))"
  shows "weight_scale_spec (reals w) < overflow_threshold (dtype w)"
proof (cases "dtype w = float16")
  case True
  then have "1 / 65520 < (\<Sum>v\<leftarrow>data (reals w). \<bar>v\<bar>) / real (length (data w))"
    using assms by simp
  then have "1 / max ((\<Sum>v\<leftarrow>data (reals w). \<bar>v\<bar>) / real (length (data w))) (1 / 100000) < 65520"
    by (rule inv_max_less)
  then show ?thesis using True by (simp add: weight_scale_spec_def)
next
  case False
  have "(1::real) / max ((\<Sum>v\<leftarrow>data (reals w). \<bar>v\<bar>) / real (length (data w))) (1 / 100000)
          \<le> 1 / (1 / 100000)"
    by (intro frac_le) simp_all
  then have "weight_scale_spec (reals w) \<le> 100000" by (simp add: weight_scale_spec_def)
  moreover have "100000 < overflow_threshold (dtype w)"
    using False by (cases "dtype w") simp_all
  ultimately show ?thesis by simp
qed





subsection \<open>The quantized linear unit\<close>

lemma LayerNorm_forward_Inr:
  assumes "shape x \<noteq> []" and "last (shape x) = normalized_shape self"
    and "case ln_weight self of None \<Rightarrow> True | Some w \<Rightarrow> dtype w = dtype x"
    and "case ln_bias self of None \<Rightarrow> True | Some b \<Rightarrow> dtype b = dtype x"
  shows "\<exists>y. LayerNorm_forward self x = Inr y \<and> shape y = shape x \<and> dtype y = dtype x
           \<and> length (data y) = length (data x)"
  using assms by (simp add: LayerNorm_forward_def)

lemma LayerNorm_forward_mismatch:
  "shape x = [] \<or> last (shape x) \<noteq> normalized_shape self
     \<Longrightarrow> LayerNorm_forward self x = Inl RuntimeError"
  by (auto simp: LayerNorm_forward_def)

lemma LayerNorm_forward_plain:
  assumes "ln_weight self = None" and "LayerNorm_forward self x = Inr y"
    and "i < length (data x)"
  shows "data y ! i
     = normalize (dtype x) (ln_eps self) (row x (i div normalized_shape self)) (data x ! i)"
  using assms by (auto simp: LayerNorm_forward_def Let_def split: if_splits)

lemma weight_quant_shape [simp]:
  "shape (weight_quant w) = shape w" "dtype (weight_quant w) = dtype w"
  "length (data (weight_quant w)) = length (data w)"
  by (simp_all add: weight_quant_def Let_def torch_clamp_def RoundSTE_apply_def)

lemma tensor_add_simps [simp]:
  "shape (tensor_add a b) = shape a" "dtype (tensor_add a b) = dtype a"
  "length (data (tensor_add a b)) = min (length (data a)) (length (data b))"
  by (simp_all add: tensor_add_def)

lemma tensor_sub_simps [simp]:
  "shape (tensor_sub a b) = shape a" "dtype (tensor_sub a b) = dtype a"
  "length (data (tensor_sub a b)) = min (length (data a)) (length (data b))"
  by (simp_all add: tensor_sub_def)

lemma detach_simp [simp]: "detach t = t"
  by (simp add: detach_def)

lemma F_linear_Inr:
  assumes "shape w = [out, inn]" and "shape input \<noteq> []" and "last (shape input) = inn"
    and "dtype input = dtype w"
    and "case b of None \<Rightarrow> True | Some bt \<Rightarrow> shape bt = [out] \<and> dtype bt = dtype w"
  shows "F_linear input w b =
     Inr \<lparr>dtype = dtype input, shape = butlast (shape input) @ [out],
          data = map (\<lambda>k. let p = f_dot (dtype input) (row input (k div out)) (row w (k mod out))
                           in (case b of
                                 None \<Rightarrow> p
                               | Some bt \<Rightarrow> f_add (dtype input) p (data bt ! (k mod out))))
                   [0..<prod_list (butlast (shape input)) * out]\<rparr>"
  using assms by (simp add: F_linear_def)

lemma F_linear_mismatch:
  assumes "shape w = [out, inn]"
    and "shape input = [] \<or> last (shape input) \<noteq> inn \<or> dtype input \<noteq> dtype w"
  shows "F_linear input w b = Inl RuntimeError"
  using assms by (auto simp: F_linear_def)

text \<open>
  The forward pass up to the linear transform: the normalization and the activation
  quantizer succeed whenever the layer has inputs.
\<close>

lemma BitLinear_forward_value:
  assumes ok: "BitLinear_ok self" and pos: "0 < in_features self" and wf: "well_formed x"
    and ne: "shape x \<noteq> []" and last: "last (shape x) = in_features self"
  shows "\<exists>x_norm aq.
      LayerNorm_forward (rms_norm self) x = Inr x_norm
    \<and> shape x_norm = shape x \<and> dtype x_norm = dtype x \<and> well_formed x_norm
    \<and> activation_quant x_norm = Inr aq
    \<and> shape aq = shape x \<and> dtype aq = dtype x \<and> length (data aq) = length (data x)
    \<and> BitLinear_forward self x
        = F_linear (tensor_add x_norm (detach (tensor_sub aq x_norm)))
            (tensor_add (weight self)
               (detach (tensor_sub (weight_quant (weight self)) (weight self))))
            (bias self)"
proof -
  have rn: "rms_norm self = LayerNorm_init (in_features self) False"
    using ok by (simp add: BitLinear_ok_def)
  have ns: "normalized_shape (rms_norm self) = in_features self"
    and nw: "ln_weight (rms_norm self) = None" and nb: "ln_bias (rms_norm self) = None"
    by (simp_all add: rn LayerNorm_init_def)
  obtain x_norm where xn: "LayerNorm_forward (rms_norm self) x = Inr x_norm"
    "shape x_norm = shape x" "dtype x_norm = dtype x" "length (data x_norm) = length (data x)"
    using LayerNorm_forward_Inr [OF ne, of "rms_norm self"] last ns nw nb by auto
  have wfn: "well_formed x_norm" using wf xn(2,4) by (simp add: well_formed_def)
  have ld: "0 < last_dim (shape x_norm)" using pos last ne xn(2) by (simp add: last_dim_def)
  obtain aq where aq: "activation_quant x_norm = Inr aq" "shape aq = shape x_norm"
    "dtype aq = dtype x_norm" "length (data aq) = length (data x_norm)"
    using activation_quant_Inr [OF wfn ld] by blast
  have "BitLinear_forward self x
        = F_linear (tensor_add x_norm (detach (tensor_sub aq x_norm)))
            (tensor_add (weight self)
               (detach (tensor_sub (weight_quant (weight self)) (weight self))))
            (bias self)"
    by (simp add: BitLinear_forward_def xn(1) aq(1) Let_def)
  then show ?thesis using xn wfn aq by auto
qed

lemma BitLinear_forward_shape:
  assumes ok: "BitLinear_ok self" and pos: "0 < in_features self" and wf: "well_formed x"
    and ne: "shape x \<noteq> []" and last: "last (shape x) = in_features self"
    and dt: "dtype x = dtype (weight self)"
  shows "\<exists>y. BitLinear_forward self x = Inr y
           \<and> shape y = butlast (shape x) @ [out_features self] \<and> dtype y = dtype x
           \<and> well_formed y"
proof -
  let ?out = "out_features self" and ?in = "in_features self"
  obtain x_norm aq where v: "shape x_norm = shape x" "dtype x_norm = dtype x"
    "BitLinear_forward self x
        = F_linear (tensor_add x_norm (detach (tensor_sub aq x_norm)))
            (tensor_add (weight self)
               (detach (tensor_sub (weight_quant (weight self)) (weight self))))
            (bias self)"
    using BitLinear_forward_value [OF ok pos wf ne last] by blast
  have ws: "shape (weight self) = [?out, ?in]"
    and bs: "case bias self of None \<Rightarrow> True
             | Some b \<Rightarrow> shape b = [?out] \<and> well_formed b \<and> dtype b = dtype (weight self)"
    using ok by (simp_all add: BitLinear_ok_def)
  have bs': "case bias self of None \<Rightarrow> True
             | Some bt \<Rightarrow> shape bt = [?out]
                 \<and> dtype bt = dtype (tensor_add (weight self)
                     (detach (tensor_sub (weight_quant (weight self)) (weight self))))"
    using bs by (cases "bias self") simp_all
  have "shape (tensor_add (weight self)
          (detach (tensor_sub (weight_quant (weight self)) (weight self)))) = [?out, ?in]"
    using ws by simp
  from F_linear_Inr [OF this _ _ _ bs', of "tensor_add x_norm (detach (tensor_sub aq x_norm))"]
    ne last v(1,2) dt
  show ?thesis unfolding v(3) by (simp add: well_formed_def)
qed

lemma BitLinear_forward_mismatch:
  assumes "BitLinear_ok self" and "shape x = [] \<or> last (shape x) \<noteq> in_features self"
  shows "BitLinear_forward self x = Inl RuntimeError"
proof -
  have "normalized_shape (rms_norm self) = in_features self"
    using assms(1) by (simp add: BitLinear_ok_def LayerNorm_init_def)
  then have "LayerNorm_forward (rms_norm self) x = Inl RuntimeError"
    using assms(2) by (intro LayerNorm_forward_mismatch) simp
  then show ?thesis by (simp add: BitLinear_forward_def)
qed

lemma BitLinear_forward_dtype:
  assumes ok: "BitLinear_ok self" and pos: "0 < in_features self" and wf: "well_formed x"
    and ne: "shape x \<noteq> []" and last: "last (shape x) = in_features self"
    and dt: "dtype x \<noteq> dtype (weight self)"
  shows "BitLinear_forward self x = Inl RuntimeError"
proof -
  obtain x_norm aq where v: "shape x_norm = shape x" "dtype x_norm = dtype x"
    "BitLinear_forward self x
        = F_linear (tensor_add x_norm (detach (tensor_sub aq x_norm)))
            (tensor_add (weight self)
               (detach (tensor_sub (weight_quant (weight self)) (weight self))))
            (bias self)"
    using BitLinear_forward_value [OF ok pos wf ne last] by blast
  have ws: "shape (tensor_add (weight self)
          (detach (tensor_sub (weight_quant (weight self)) (weight self))))
        = [out_features self, in_features self]"
    using ok by (simp add: BitLinear_ok_def)
  show ?thesis unfolding v(3)
    by (rule F_linear_mismatch [OF ws]) (use dt v(2) in simp)
qed

lemma BitLinear_forward_no_features:
  assumes ok: "BitLinear_ok self" and z: "in_features self = 0"
    and ne: "shape x \<noteq> []" and last: "last (shape x) = in_features self"
  shows "BitLinear_forward self x = Inl IndexError"
proof -
  have rn: "rms_norm self = LayerNorm_init (in_features self) False"
    using ok by (simp add: BitLinear_ok_def)
  have ns: "normalized_shape (rms_norm self) = in_features self"
    and nw: "ln_weight (rms_norm self) = None" and nb: "ln_bias (rms_norm self) = None"
    by (simp_all add: rn LayerNorm_init_def)
  obtain x_norm where xn: "LayerNorm_forward (rms_norm self) x = Inr x_norm"
    "shape x_norm = shape x"
    using LayerNorm_forward_Inr [OF ne, of "rms_norm self"] last ns nw nb by auto
  have "last_dim (shape x_norm) = 0" using xn(2) ne last z by (simp add: last_dim_def)
  then have "activation_quant x_norm = Inl IndexError" by (rule activation_quant_empty_rows)
  then show ?thesis by (simp add: BitLinear_forward_def xn(1))
qed

lemma new_parameter_simps [simp]:
  "shape (new_parameter pv name sh) = sh" "dtype (new_parameter pv name sh) = float32"
  "length (data (new_parameter pv name sh)) = prod_list sh"
  "well_formed (new_parameter pv name sh)"
  by (simp_all add: new_parameter_def well_formed_def)

lemma BitLinear_init_simps [simp]:
  "in_features (BitLinear_init pv name inn out hb) = inn"
  "out_features (BitLinear_init pv name inn out hb) = out"
  "dtype (weight (BitLinear_init pv name inn out hb)) = float32"
  by (simp_all add: BitLinear_init_def)

lemma BitLinear_init_ok: "BitLinear_ok (BitLinear_init pv name inn out hb)"
  by (simp add: BitLinear_ok_def BitLinear_init_def)

text \<open>
  Claim C1 as stated fails on two kinds of input whose last dimension equals
  \<open>in_features\<close>: for a layer without inputs (\<open>in_features = 0\<close>) the maximum over the
  empty last dimension in \<open>activation_quant\<close> raises an IndexError, and for an input whose
  dtype differs from that of the weight (here float64 against float32) \<open>F.linear\<close> raises a
  RuntimeError.
\<close>

theorem BitLinear_forward_counterexample:
  "last (shape \<lparr>dtype = float32, shape = [2, 0], data = ([] :: fval list)\<rparr>)
     = in_features (BitLinear_init (\<lambda>n i. 1 / 2) ''fc'' 0 3 True)
   \<and> BitLinear_forward (BitLinear_init (\<lambda>n i. 1 / 2) ''fc'' 0 3 True)
       \<lparr>dtype = float32, shape = [2, 0], data = []\<rparr> = Inl IndexError
   \<and> last (shape \<lparr>dtype = float64, shape = [1, 2], data = [Fin 1, Fin 3]\<rparr>)
     = in_features (BitLinear_init (\<lambda>n i. 1 / 2) ''fc'' 2 3 True)
   \<and> BitLinear_forward (BitLinear_init (\<lambda>n i. 1 / 2) ''fc'' 2 3 True)
       \<lparr>dtype = float64, shape = [1, 2], data = [Fin 1, Fin 3]\<rparr> = Inl RuntimeError"
proof -
  let ?La = "BitLinear_init (\<lambda>n i. 1 / 2) ''fc'' 0 3 True"
  let ?xa = "\<lparr>dtype = float32, shape = [2, 0], data = ([] :: fval list)\<rparr>"
  let ?L = "BitLinear_init (\<lambda>n i. 1 / 2) ''fc'' 2 3 True"
  let ?x = "\<lparr>dtype = float64, shape = [1, 2], data = [Fin 1, Fin 3]\<rparr>"
  have a: "BitLinear_forward ?La ?xa = Inl IndexError"
    by (rule BitLinear_forward_no_features [OF BitLinear_init_ok]) simp_all
  have b: "BitLinear_forward ?L ?x = Inl RuntimeError"
    by (rule BitLinear_forward_dtype [OF BitLinear_init_ok]) (simp_all add: well_formed_def)
  have c: "last (shape ?xa) = in_features ?La" "last (shape ?x) = in_features ?L" by simp_all
  show ?thesis using a b c by blast
qed

text \<open>
  Claim C1, amended. For a BitLinear layer with consistent parameter shapes and
  \<open>in_features > 0\<close>, and a well-formed input whose last dimension is \<open>in_features\<close> and
  whose dtype is that of the weight, \<open>forward\<close> succeeds; the normalization has no affine
  parameters and yields the normalized input \<open>x_norm\<close>; the output keeps all leading
  dimensions and the dtype and has last dimension \<open>out_features\<close>; and element \<open>(r, c)\<close>
  of the output is the inner product of row \<open>r\<close> of
  \<open>x_q = x_norm + (activation_quant(x_norm) - x_norm).detach()\<close> with row \<open>c\<close> of
  \<open>w_q = w + (weight_quant(w) - w).detach()\<close>, plus the unquantized bias.
\<close>

theorem BitLinear_forward_contract:
  assumes ok: "BitLinear_ok self" and pos: "0 < in_features self" and wf: "well_formed x"
    and ne: "shape x \<noteq> []" and last: "last (shape x) = in_features self"
    and dt: "dtype x = dtype (weight self)"
  shows "\<exists>x_norm aq y.
      LayerNorm_forward (rms_norm self) x = Inr x_norm
    \<and> ln_weight (rms_norm self) = None \<and> ln_bias (rms_norm self) = None
    \<and> (\<forall>i<length (data x).
          data x_norm ! i
            = normalize (dtype x) (1 / 100000) (row x (i div in_features self)) (data x ! i))
    \<and> activation_quant x_norm = Inr aq
    \<and> BitLinear_forward self x = Inr y
    \<and> shape y = butlast (shape x) @ [out_features self]
    \<and> dtype y = dtype x
    \<and> well_formed y
    \<and> (\<forall>r<prod_list (butlast (shape x)). \<forall>c<out_features self.
          data y ! (r * out_features self + c)
            = (let p = f_dot (dtype x)
                         (row (tensor_add x_norm (detach (tensor_sub aq x_norm))) r)
                         (row (tensor_add (weight self)
                                 (detach (tensor_sub (weight_quant (weight self)) (weight self)))) c)
               in (case bias self of None \<Rightarrow> p | Some b \<Rightarrow> f_add (dtype x) p (data b ! c))))"
proof -
  let ?out = "out_features self" and ?in = "in_features self"
  obtain x_norm aq where v:
    "LayerNorm_forward (rms_norm self) x = Inr x_norm"
    "shape x_norm = shape x" "dtype x_norm = dtype x"
    "activation_quant x_norm = Inr aq"
    "BitLinear_forward self x
        = F_linear (tensor_add x_norm (detach (tensor_sub aq x_norm)))
            (tensor_add (weight self)
               (detach (tensor_sub (weight_quant (weight self)) (weight self))))
            (bias self)"
    using BitLinear_forward_value [OF ok pos wf ne last] by blast
  let ?xq = "tensor_add x_norm (detach (tensor_sub aq x_norm))"
  let ?wq = "tensor_add (weight self)
               (detach (tensor_sub (weight_quant (weight self)) (weight self)))"
  have rn: "rms_norm self = LayerNorm_init ?in False"
    and ws: "shape (weight self) = [?out, ?in]"
    and bs: "case bias self of None \<Rightarrow> True
             | Some b \<Rightarrow> shape b = [?out] \<and> well_formed b \<and> dtype b = dtype (weight self)"
    using ok by (simp_all add: BitLinear_ok_def)
  have na: "ln_weight (rms_norm self) = None" "ln_bias (rms_norm self) = None"
    and ns: "normalized_shape (rms_norm self) = ?in" and le: "ln_eps (rms_norm self) = 1 / 100000"
    by (simp_all add: rn LayerNorm_init_def)
  have nv: "\<forall>i<length (data x).
          data x_norm ! i = normalize (dtype x) (1 / 100000) (row x (i div ?in)) (data x ! i)"
    using LayerNorm_forward_plain [OF na(1) v(1)] ns le by simp
  have bs': "case bias self of None \<Rightarrow> True
             | Some bt \<Rightarrow> shape bt = [?out] \<and> dtype bt = dtype ?wq"
    using bs by (cases "bias self") simp_all
  have wqs: "shape ?wq = [?out, ?in]" using ws by simp
  let ?yy = "\<lparr>dtype = dtype ?xq, shape = butlast (shape ?xq) @ [?out],
          data = map (\<lambda>k. let p = f_dot (dtype ?xq) (row ?xq (k div ?out)) (row ?wq (k mod ?out))
                           in (case bias self of
                                 None \<Rightarrow> p
                               | Some bt \<Rightarrow> f_add (dtype ?xq) p (data bt ! (k mod ?out))))
                   [0..<prod_list (butlast (shape ?xq)) * ?out]\<rparr>"
  let ?y = "\<lparr>dtype = dtype x, shape = butlast (shape x) @ [?out],
          data = map (\<lambda>k. let p = f_dot (dtype x) (row ?xq (k div ?out)) (row ?wq (k mod ?out))
                           in (case bias self of
                                 None \<Rightarrow> p
                               | Some bt \<Rightarrow> f_add (dtype x) p (data bt ! (k mod ?out))))
                   [0..<prod_list (butlast (shape x)) * ?out]\<rparr>"
  have fl0: "BitLinear_forward self x = Inr ?yy"
    unfolding v(5)
    by (rule F_linear_Inr [OF wqs _ _ _ bs']) (use ne last v(2,3) dt in simp_all)
  have e: "?yy = ?y" using v(2,3) by (simp add: Let_def split: option.split)
  have fl: "BitLinear_forward self x = Inr ?y" using fl0 by (simp only: e)
  have sh: "shape ?y = butlast (shape x) @ [?out]" and dy: "dtype ?y = dtype x"
    by simp_all
  have wfy: "well_formed ?y" by (simp add: well_formed_def)
  have el: "data ?y ! (r * ?out + c)
            = (let p = f_dot (dtype x) (row ?xq r) (row ?wq c)
               in (case bias self of None \<Rightarrow> p | Some b \<Rightarrow> f_add (dtype x) p (data b ! c)))"
    if r: "r < prod_list (butlast (shape x))" and c: "c < ?out" for r c
  proof -
    have "Suc r * ?out \<le> prod_list (butlast (shape x)) * ?out"
      using r by (intro mult_le_mono1) simp
    then have lt: "r * ?out + c < prod_list (butlast (shape x)) * ?out"
      using c by simp
    have dm: "(r * ?out + c) div ?out = r" "(r * ?out + c) mod ?out = c" using c by simp_all
    show ?thesis using lt c by (cases "bias self") (simp_all add: Let_def)
  qed
  show ?thesis
    using v(1,4) na nv fl sh dy wfy el by blast
qed

text \<open>
  Claim C1, amended, at a layer with two inputs and three outputs and an input of shape
  \<open>[2, 1, 2]\<close>.
\<close>

theorem BitLinear_forward_contract_witness:
  "\<exists>y. BitLinear_forward (BitLinear_init (\<lambda>n i. 1 / 2) ''fc'' 2 3 True)
          \<lparr>dtype = float32, shape = [2, 1, 2], data = [Fin 1, Fin 3, Fin 0, Fin 0]\<rparr> = Inr y
       \<and> shape y = [2, 1, 3] \<and> dtype y = float32 \<and> well_formed y"
proof -
  let ?L = "BitLinear_init (\<lambda>n i. 1 / 2) ''fc'' 2 3 True"
  let ?x = "\<lparr>dtype = float32, shape = [2, 1, 2], data = [Fin 1, Fin 3, Fin 0, Fin 0]\<rparr>"
  have ok: "BitLinear_ok ?L" by (rule BitLinear_init_ok)
  have pos: "0 < in_features ?L" by simp
  have wf: "well_formed ?x" by (simp add: well_formed_def)
  have ne: "shape ?x \<noteq> []" by simp
  have la: "last (shape ?x) = in_features ?L" by simp
  have dt: "dtype ?x = dtype (weight ?L)" by simp
  show ?thesis using BitLinear_forward_contract [OF ok pos wf ne la dt] by auto
qed

end
